theory Spec2Isabelle
  imports Main
begin

section \<open>The remote automation endpoint\<close>

text \<open>
  The scraper of \<^verbatim>\<open>src/src/scraper.py\<close> drives a remote browser through Selenium.
  Every call on a driver is one command sent to the endpoint, which answers with a value
  or with an exception. The exceptions are those the source names, by their place in
  Selenium's hierarchy: \<open>TimeoutException\<close>, \<open>InvalidSessionIdException\<close>,
  \<open>InvalidArgumentException\<close> (what a malformed URL gives) and
  \<open>NoSuchElementException\<close> are subclasses of \<open>WebDriverException\<close>; the constructor
  \<open>WebDriverException\<close> stands for the base class and every subclass not listed
  (a rejected session creation among them); \<open>OtherException\<close> is any exception outside
  the hierarchy (a transport error of the HTTP client, for instance).
\<close>

datatype exn =
    TimeoutException
  | InvalidSessionIdException
  | InvalidArgumentException
  | NoSuchElementException
  | WebDriverException
  | OtherException

text \<open>\<^verbatim>\<open>isinstance(ex, WebDriverException)\<close>, which is what the \<^verbatim>\<open>except\<close> clauses test.\<close>

fun is_WebDriverException :: "exn \<Rightarrow> bool" where
  "is_WebDriverException OtherException = False"
| "is_WebDriverException _ = True"

type_synonym driver = nat

datatype cmd =
    NewSession
  | SetPageLoadTimeout driver nat
  | ExecuteScript driver string
  | Get driver string
  | PageSource driver
  | Quit driver

datatype resp = Ok string | Raise exn

text \<open>
  The environment of one run: the endpoint as a transition function on a state of its own,
  the order \<^verbatim>\<open>random.sample\<close> gives the two scroll actions for a given driver, and the
  number of further polls \<^verbatim>\<open>WebDriverWait.until\<close> makes before its deadline passes.
\<close>

record 's env =
  respond :: "cmd \<Rightarrow> 's \<Rightarrow> resp \<times> 's"
  swapped :: "driver \<Rightarrow> bool"
  polls :: nat

text \<open>
  The world threaded through the calls: the endpoint's state, the commands sent so far with
  their answers, and the number of drivers created (the next driver's handle).
\<close>

record 's world =
  est :: 's
  trace :: "(cmd \<times> resp) list"
  opened :: nat

definition execute :: "'s env \<Rightarrow> cmd \<Rightarrow> 's world \<Rightarrow> resp \<times> 's world" where
  "execute env c w =
     (case respond env c (est w) of
        (r, s') \<Rightarrow> (r, w\<lparr>est := s', trace := trace w @ [(c, r)]\<rparr>))"

text \<open>A driver call whose value is not used: \<^verbatim>\<open>driver.get(url)\<close>, \<^verbatim>\<open>driver.quit()\<close>, ...\<close>

definition command :: "'s env \<Rightarrow> cmd \<Rightarrow> 's world \<Rightarrow> (exn + unit) \<times> 's world" where
  "command env c w =
     (case execute env c w of
        (Ok v, w') \<Rightarrow> (Inr (), w')
      | (Raise e, w') \<Rightarrow> (Inl e, w'))"

section \<open>Session lifecycle\<close>

text \<open>
  \<^verbatim>\<open>_create_firefox_driver\<close>: the options are built locally; \<^verbatim>\<open>webdriver.Remote(...)\<close>
  is the one remote call, and a new driver exists only when it succeeds.
\<close>

definition create_firefox_driver :: "'s env \<Rightarrow> 's world \<Rightarrow> (exn + driver) \<times> 's world" where
  "create_firefox_driver env w =
     (case execute env NewSession w of
        (Ok v, w') \<Rightarrow> (Inr (opened w), w'\<lparr>opened := Suc (opened w)\<rparr>)
      | (Raise e, w') \<Rightarrow> (Inl e, w'))"

definition scroll_down :: string where
  "scroll_down = ''window.scrollTo(0, document.body.scrollHeight);''"

definition scroll_up :: string where
  "scroll_up = ''window.scrollTo(document.body.scrollHeight, 0);''"

text \<open>The loop of \<^verbatim>\<open>_imitate_user_behavior\<close>: each action in turn, the first exception ends it.\<close>

fun run_actions :: "'s env \<Rightarrow> driver \<Rightarrow> string list \<Rightarrow> 's world \<Rightarrow> (exn + unit) \<times> 's world" where
  "run_actions env d [] w = (Inr (), w)"
| "run_actions env d (a # as) w =
     (case command env (ExecuteScript d a) w of
        (Inl e, w') \<Rightarrow> (Inl e, w')
      | (Inr u, w') \<Rightarrow> run_actions env d as w')"

definition imitate_user_behavior :: "'s env \<Rightarrow> driver \<Rightarrow> 's world \<Rightarrow> (exn + unit) \<times> 's world" where
  "imitate_user_behavior env d w =
     run_actions env d
       (if swapped env d then [scroll_up, scroll_down] else [scroll_down, scroll_up]) w"

definition hide_webdriver :: string where
  "hide_webdriver = ''Object.defineProperty(navigator, 'webdriver', {get: () => undefined})''"

definition start :: "'s env \<Rightarrow> 's world \<Rightarrow> (exn + driver) \<times> 's world" where
  "start env w =
     (case create_firefox_driver env w of
        (Inl e, w1) \<Rightarrow> (Inl e, w1)
      | (Inr d, w1) \<Rightarrow>
          (case command env (SetPageLoadTimeout d 20) w1 of
             (Inl e, w2) \<Rightarrow> (Inl e, w2)
           | (Inr u, w2) \<Rightarrow>
               (case command env (ExecuteScript d hide_webdriver) w2 of
                  (Inl e, w3) \<Rightarrow> (Inl e, w3)
                | (Inr u, w3) \<Rightarrow>
                    (case imitate_user_behavior env d w3 of
                       (Inl e, w4) \<Rightarrow> (Inl e, w4)
                     | (Inr u, w4) \<Rightarrow> (Inr d, w4)))))"

text \<open>
  \<^verbatim>\<open>stop\<close>: \<^verbatim>\<open>driver.quit()\<close> under
  \<^verbatim>\<open>except (WebDriverException, InvalidSessionIdException)\<close>, whose handler only prints.
\<close>

definition stop :: "'s env \<Rightarrow> driver \<Rightarrow> 's world \<Rightarrow> (exn + unit) \<times> 's world" where
  "stop env d w =
     (case command env (Quit d) w of
        (Inr u, w') \<Rightarrow> (Inr (), w')
      | (Inl e, w') \<Rightarrow> if is_WebDriverException e then (Inr (), w') else (Inl e, w'))"

section \<open>The retry engine\<close>

text \<open>
  \<^verbatim>\<open>_safe_get(driver, method, *args)\<close>. The parameter \<open>driver\<close> is a local variable of the
  function: \<^verbatim>\<open>driver = self.start()\<close> rebinds it there and nowhere else, while \<open>method\<close>
  is the callable the caller passed and stays what it was. The three exception classes of
  the \<^verbatim>\<open>except\<close> clause are \<open>WebDriverException\<close> and two of its subclasses. An exception
  raised inside the handler (by \<open>stop\<close> or \<open>start\<close>) leaves the function.
\<close>

function safe_get_loop ::
  "'s env \<Rightarrow> ('s world \<Rightarrow> (exn + unit) \<times> 's world) \<Rightarrow> nat \<Rightarrow> driver \<Rightarrow> 's world
     \<Rightarrow> (exn + bool) \<times> 's world" where
  "safe_get_loop env method retries d w =
     (if retries < 3 then
        (case method w of
           (Inr u, w1) \<Rightarrow> (Inr True, w1)
         | (Inl ex, w1) \<Rightarrow>
             if is_WebDriverException ex then
               (if retries + 1 < 3 then
                  (case stop env d w1 of
                     (Inl e, w2) \<Rightarrow> (Inl e, w2)
                   | (Inr u, w2) \<Rightarrow>
                       (case start env w2 of
                          (Inl e, w3) \<Rightarrow> (Inl e, w3)
                        | (Inr d', w3) \<Rightarrow> safe_get_loop env method (retries + 1) d' w3))
                else safe_get_loop env method (retries + 1) d w1)
             else (Inl ex, w1))
      else (Inr False, w))"
  by pat_completeness auto
termination
  by (relation "measure (\<lambda>(env, method, retries, d, w). 3 - retries)") auto

definition safe_get ::
  "'s env \<Rightarrow> driver \<Rightarrow> ('s world \<Rightarrow> (exn + unit) \<times> 's world) \<Rightarrow> 's world
     \<Rightarrow> (exn + bool) \<times> 's world" where
  "safe_get env d method w = safe_get_loop env method 0 d w"

text \<open>The bound method \<^verbatim>\<open>driver.get\<close> applied to \<open>url\<close>.\<close>

definition driver_get :: "'s env \<Rightarrow> driver \<Rightarrow> string \<Rightarrow> 's world \<Rightarrow> (exn + unit) \<times> 's world" where
  "driver_get env d url w = command env (Get d url) w"

section \<open>Fetching the page source\<close>

text \<open>
  \<^verbatim>\<open>WebDriverWait(driver, 10).until(f)\<close> of Selenium: call \<open>f\<close>; a true value ends the
  wait; \<open>NoSuchElementException\<close> is the one exception it ignores; once the deadline has
  passed it raises \<open>TimeoutException\<close>, otherwise it sleeps and polls again. Here \<open>f\<close>
  compares the value of the ready-state script with \<^verbatim>\<open>"complete"\<close>, and \<open>n\<close> is the
  number of further polls the deadline allows.
\<close>

definition ready_state :: string where
  "ready_state = ''return document.readyState''"

fun until_ready :: "'s env \<Rightarrow> driver \<Rightarrow> nat \<Rightarrow> 's world \<Rightarrow> (exn + unit) \<times> 's world" where
  "until_ready env d n w =
     (case execute env (ExecuteScript d ready_state) w of
        (Ok v, w') \<Rightarrow>
          if v = ''complete'' then (Inr (), w')
          else (case n of 0 \<Rightarrow> (Inl TimeoutException, w') | Suc m \<Rightarrow> until_ready env d m w')
      | (Raise e, w') \<Rightarrow>
          if e = NoSuchElementException
          then (case n of 0 \<Rightarrow> (Inl TimeoutException, w') | Suc m \<Rightarrow> until_ready env d m w')
          else (Inl e, w'))"

definition NOT_RESPONDING :: string where
  "NOT_RESPONDING = ''This site is not responding.''"

definition NOT_RELEVANT :: string where
  "NOT_RELEVANT = ''This result doesn`t contain relevant information.''"

text \<open>The body of the \<^verbatim>\<open>try\<close> block of \<^verbatim>\<open>_fetch_url\<close>.\<close>

definition fetch_body ::
  "'s env \<Rightarrow> driver \<Rightarrow> string \<Rightarrow> 's world \<Rightarrow> (exn + string option) \<times> 's world" where
  "fetch_body env d url w =
     (case safe_get env d (driver_get env d url) w of
        (Inl e, w1) \<Rightarrow> (Inl e, w1)
      | (Inr ok, w1) \<Rightarrow>
          if \<not> ok then (Inr (Some NOT_RESPONDING), w1)
          else
            (case until_ready env d (polls env) w1 of
               (Inl e, w2) \<Rightarrow> (Inl e, w2)
             | (Inr u, w2) \<Rightarrow>
                 (case execute env (PageSource d) w2 of
                    (Ok src, w3) \<Rightarrow> (Inr (Some src), w3)
                  | (Raise e, w3) \<Rightarrow> (Inl e, w3))))"

text \<open>
  \<^verbatim>\<open>_fetch_url\<close>: \<open>start\<close> is called before the \<^verbatim>\<open>try\<close>; the handlers turn a
  \<open>TimeoutException\<close> into the not-responding message and any other
  \<open>WebDriverException\<close> into \<open>None\<close>; the \<^verbatim>\<open>finally\<close> clause stops the driver bound in
  this function, and an exception raised there replaces the result.
\<close>

definition fetch_url :: "'s env \<Rightarrow> string \<Rightarrow> 's world \<Rightarrow> (exn + string option) \<times> 's world" where
  "fetch_url env url w =
     (case start env w of
        (Inl e, w1) \<Rightarrow> (Inl e, w1)
      | (Inr d, w1) \<Rightarrow>
          (case fetch_body env d url w1 of
             (r, w2) \<Rightarrow>
               (let handled =
                      (case r of
                         Inr v \<Rightarrow> Inr v
                       | Inl e \<Rightarrow>
                           if e = TimeoutException then Inr (Some NOT_RESPONDING)
                           else if is_WebDriverException e then Inr None
                           else Inl e)
                in (case stop env d w2 of
                      (Inl e, w3) \<Rightarrow> (Inl e, w3)
                    | (Inr u, w3) \<Rightarrow> (handled, w3)))))"

section \<open>The parsed document\<close>

text \<open>
  What \<^verbatim>\<open>BeautifulSoup(page_source, "lxml")\<close> returns is a tree of elements and text.
  An attribute value is one string, or, for \<open>class\<close>, the list of its tokens.
\<close>

datatype attr_value = Single string | Multi "string list"

datatype node =
    Text string
  | Element string "(string \<times> attr_value) list" "node list"

fun children :: "node \<Rightarrow> node list" where
  "children (Text s) = []"
| "children (Element t a cs) = cs"

text \<open>All nodes below a node, in document order.\<close>

fun descendants :: "node \<Rightarrow> node list" where
  "descendants (Text s) = []"
| "descendants (Element t a cs) = concat (map (\<lambda>c. c # descendants c) cs)"

fun is_tag :: "string \<Rightarrow> node \<Rightarrow> bool" where
  "is_tag n (Text s) = False"
| "is_tag n (Element t a cs) = (t = n)"

text \<open>\<^verbatim>\<open>tag.find_all(name)\<close> and \<^verbatim>\<open>tag.select(name)\<close> for a tag name: the descendants.\<close>

definition find_all :: "(node \<Rightarrow> bool) \<Rightarrow> node \<Rightarrow> node list" where
  "find_all P n = filter P (descendants n)"

definition select :: "string \<Rightarrow> node \<Rightarrow> node list" where
  "select n b = find_all (is_tag n) b"

text \<open>\<^verbatim>\<open>soup.body\<close>: the first \<open>body\<close> element of the document, or \<open>None\<close>.\<close>

definition soup_body :: "node \<Rightarrow> node option" where
  "soup_body soup = (case select ''body'' soup of [] \<Rightarrow> None | b # bs \<Rightarrow> Some b)"

text \<open>\<^verbatim>\<open>get_text()\<close>: the strings of the text nodes below, concatenated.\<close>

fun get_text :: "node \<Rightarrow> string" where
  "get_text (Text s) = s"
| "get_text (Element t a cs) = concat (map get_text cs)"

text \<open>
  \<^verbatim>\<open>str.strip()\<close>: the characters below 256 for which \<^verbatim>\<open>str.isspace\<close> holds are
  9 to 13, 28 to 32, 133 and 160.
\<close>

definition isspace :: "char \<Rightarrow> bool" where
  "isspace c = (of_char c \<in> {9, 10, 11, 12, 13, 28, 29, 30, 31, 32, 133, 160 :: nat})"

definition strip :: "string \<Rightarrow> string" where
  "strip s = rev (dropWhile isspace (rev (dropWhile isspace s)))"

definition newline :: char where
  "newline = CHR 0x0A"

fun join :: "string list \<Rightarrow> string" where
  "join [] = []"
| "join [x] = x"
| "join (x # y # ys) = x @ newline # join (y # ys)"

definition extract_text_from_paragraphs :: "node list \<Rightarrow> string" where
  "extract_text_from_paragraphs paragraphs = join (map (\<lambda>p. strip (get_text p)) paragraphs)"

section \<open>Noise removal\<close>

text \<open>
  \<^verbatim>\<open>for element in soup.find_all(...): element.decompose()\<close> removes from the tree every
  element below \<open>soup\<close> that the search matches, with everything under it. The search looks
  below \<open>soup\<close>, never at \<open>soup\<close> itself.
\<close>

fun decompose_all :: "(node \<Rightarrow> bool) \<Rightarrow> node \<Rightarrow> node" where
  "decompose_all P (Text s) = Text s"
| "decompose_all P (Element t a cs) =
     Element t a (map (decompose_all P) (filter (\<lambda>c. \<not> P c) cs))"

text \<open>
  \<^verbatim>\<open>find_all(True, {attr: pattern})\<close>: an element whose attribute \<open>attr\<close> has the value
  \<open>pattern\<close>, or has it among its tokens when the attribute is multi-valued. (The search
  also compares the tokens joined by spaces; no pattern below has a space.)
\<close>

fun value_matches :: "string \<Rightarrow> attr_value \<Rightarrow> bool" where
  "value_matches pattern (Single v) = (v = pattern)"
| "value_matches pattern (Multi vs) = (pattern \<in> set vs)"

fun has_attr :: "string \<Rightarrow> string \<Rightarrow> node \<Rightarrow> bool" where
  "has_attr attr pattern (Text s) = False"
| "has_attr attr pattern (Element t a cs) =
     (case map_of a attr of None \<Rightarrow> False | Some v \<Rightarrow> value_matches pattern v)"

definition unwanted_patterns :: "string list" where
  "unwanted_patterns =
     [''ads'', ''advertisement'', ''cookie'', ''cookies'', ''cookie-banner'',
      ''branda-cookie-notice'', ''banner'', ''widget'', ''notice'', ''cookie-notice'',
      ''footer'', ''subs'', ''header'', ''sidemenu'', ''sidebar'', ''bar'', ''menu'',
      ''navbar'', ''nav'', ''navigation'', ''tracker'', ''tracking'', ''promo'',
      ''promotion'', ''sponsor'', ''sponsored'', ''ad-slot'', ''ad-wrapper'',
      ''ad-container'', ''adbox'', ''popup'', ''pop-up'', ''social'', ''share'',
      ''sharing'', ''comments'', ''disqus'', ''fb'', ''twitter'', ''instagram'',
      ''widgetbox'', ''login'', ''signup'', ''subscribe'', ''related'', ''gallery'',
      ''breadcrumb'', ''bottom'', ''label'', ''modal-content'']"

definition direct_tags_to_remove :: "string list" where
  "direct_tags_to_remove =
     [''header'', ''footer'', ''nav'', ''script'', ''style'', ''form'', ''button'', ''iframe'']"

text \<open>
  \<^verbatim>\<open>_remove_unwanted_elements\<close>: one pass per tag, then one pass per pattern and
  attribute. The two collections are sets in the source; they are taken here in the order
  they are written.
\<close>

definition remove_unwanted_elements :: "node \<Rightarrow> node" where
  "remove_unwanted_elements soup =
     fold (\<lambda>pattern s. fold (\<lambda>attr. decompose_all (has_attr attr pattern)) [''class'', ''id''] s)
       unwanted_patterns
       (fold (\<lambda>tag. decompose_all (is_tag tag)) direct_tags_to_remove soup)"

section \<open>Extraction and the orchestrator\<close>

text \<open>
  \<^verbatim>\<open>_extract_paragraphs\<close>, with the parser as the parameter \<open>bs\<close>. The noise removal
  changes the body in place, so the text of the fallback is read from the body as the
  removal left it.
\<close>

definition extract_paragraphs :: "(string \<Rightarrow> node) \<Rightarrow> string option \<Rightarrow> string option" where
  "extract_paragraphs bs page_source =
     (case page_source of
        None \<Rightarrow> None
      | Some src \<Rightarrow>
          if src = [] then None
          else
            (case soup_body (bs src) of
               None \<Rightarrow> None
             | Some body0 \<Rightarrow>
                 (let body = remove_unwanted_elements body0;
                      all_elements = select ''p'' body @ select ''span'' body;
                      text = strip (extract_text_from_paragraphs all_elements)
                  in Some (if length text < 1000 then strip (get_text body) else text))))"

text \<open>\<^verbatim>\<open>scrape\<close>; the \<^verbatim>\<open>print\<close> calls are left out.\<close>

definition scrape ::
  "'s env \<Rightarrow> (string \<Rightarrow> node) \<Rightarrow> string \<Rightarrow> 's world \<Rightarrow> (exn + string option) \<times> 's world" where
  "scrape env bs url w =
     (case fetch_url env url w of
        (Inl e, w') \<Rightarrow> (Inl e, w')
      | (Inr page_source, w') \<Rightarrow>
          if page_source = Some NOT_RESPONDING then (Inr page_source, w')
          else
            (case extract_paragraphs bs page_source of
               None \<Rightarrow> (Inr None, w')
             | Some text_from_paragraphs \<Rightarrow>
                 if text_from_paragraphs \<noteq> [] then
                   (if length text_from_paragraphs < 1000 then (Inr (Some NOT_RELEVANT), w')
                    else (Inr (Some text_from_paragraphs), w'))
                 else (Inr None, w')))"

section \<open>Observing a run\<close>

text \<open>
  What a run did is read from the trace: the navigation attempts with their answers, and
  the order in which navigations, teardowns (\<open>quit\<close>) and session creations were sent.
\<close>

datatype kind = Nav | Teardown | Create

fun kind_of :: "cmd \<Rightarrow> kind list" where
  "kind_of (Get d url) = [Nav]"
| "kind_of (Quit d) = [Teardown]"
| "kind_of NewSession = [Create]"
| "kind_of c = []"

definition kinds :: "(cmd \<times> resp) list \<Rightarrow> kind list" where
  "kinds tr = concat (map (\<lambda>(c, r). kind_of c) tr)"

fun is_Get :: "cmd \<Rightarrow> bool" where
  "is_Get (Get d url) = True"
| "is_Get c = False"

fun is_Quit :: "cmd \<Rightarrow> bool" where
  "is_Quit (Quit d) = True"
| "is_Quit c = False"

fun is_Ok :: "resp \<Rightarrow> bool" where
  "is_Ok (Ok v) = True"
| "is_Ok (Raise e) = False"

definition nav_results :: "(cmd \<times> resp) list \<Rightarrow> resp list" where
  "nav_results tr = map snd (filter (\<lambda>(c, r). is_Get c) tr)"

text \<open>The drivers \<open>quit\<close> was sent for, in order.\<close>

definition quits :: "(cmd \<times> resp) list \<Rightarrow> driver list" where
  "quits tr = concat (map (\<lambda>(c, r). case c of Quit d \<Rightarrow> [d] | _ \<Rightarrow> []) tr)"

text \<open>
  \<open>n\<close> navigation attempts with a teardown and a session creation between each two of
  them, and none after the last.
\<close>

fun attempts_pattern :: "nat \<Rightarrow> kind list" where
  "attempts_pattern 0 = []"
| "attempts_pattern (Suc 0) = [Nav]"
| "attempts_pattern (Suc (Suc n)) = Nav # Teardown # Create # attempts_pattern (Suc n)"

text \<open>
  An endpoint on which the retry engine is left to itself: creating and setting up a
  session always succeeds, and a navigation or a \<open>quit\<close> that fails does so with a
  \<open>WebDriverException\<close>.
\<close>

definition calm :: "'s env \<Rightarrow> bool" where
  "calm env \<longleftrightarrow>
     (\<forall>c s. \<not> is_Get c \<and> \<not> is_Quit c \<longrightarrow> is_Ok (fst (respond env c s))) \<and>
     (\<forall>c s e. fst (respond env c s) = Raise e \<longrightarrow> is_WebDriverException e)"

text \<open>
  The shape of the part \<open>new\<close> of a trace that a retry loop with \<open>n\<close> attempts left
  added before it returned \<open>b\<close>.
\<close>

definition retry_shape :: "cmd \<Rightarrow> nat \<Rightarrow> bool \<Rightarrow> (cmd \<times> resp) list \<Rightarrow> bool" where
  "retry_shape nav n b new \<longleftrightarrow>
     (let rs = nav_results new in
        length rs \<le> n \<and> (0 < n \<longrightarrow> rs \<noteq> []) \<and>
        (\<forall>x \<in> set (butlast rs). \<not> is_Ok x) \<and>
        (b \<longleftrightarrow> rs \<noteq> [] \<and> is_Ok (last rs)) \<and>
        (\<not> b \<longrightarrow> length rs = n) \<and>
        kinds new = attempts_pattern (length rs) \<and>
        (b \<longrightarrow> new \<noteq> [] \<and> last new = (nav, last rs)))"

text \<open>
  The shape of the part \<open>new\<close> of a trace that a retry loop with \<open>n\<close> attempts left
  added before the exception \<open>e\<close> left it: every navigation made has failed, and the
  exception is that of the last navigation, or that of the teardown after it, or that of
  the session creation after the teardown.
\<close>

definition abort_shape :: "cmd \<Rightarrow> nat \<Rightarrow> exn \<Rightarrow> (cmd \<times> resp) list \<Rightarrow> bool" where
  "abort_shape nav n e new \<longleftrightarrow>
     (let rs = nav_results new; k = length rs in
        rs \<noteq> [] \<and> k \<le> n \<and> (\<forall>x \<in> set rs. \<not> is_Ok x) \<and>
        ((\<not> is_WebDriverException e \<and> kinds new = attempts_pattern k \<and> last new = (nav, Raise e)) \<or>
         (k < n \<and> \<not> is_WebDriverException e \<and> kinds new = attempts_pattern k @ [Teardown]) \<or>
         (k < n \<and> kinds new = attempts_pattern k @ [Teardown, Create])))"

definition outcome_shape :: "cmd \<Rightarrow> nat \<Rightarrow> exn + bool \<Rightarrow> (cmd \<times> resp) list \<Rightarrow> bool" where
  "outcome_shape nav n res new =
     (case res of Inr b \<Rightarrow> retry_shape nav n b new | Inl e \<Rightarrow> abort_shape nav n e new)"

section \<open>A scripted endpoint\<close>

text \<open>
  A fake endpoint for concrete runs. Its state counts the navigations it has received;
  \<open>nav_answer n\<close> is its answer to navigation number \<open>n\<close> (from 0), and it has one
  answer to every \<open>quit\<close> and one to every session creation; the ready-state script
  answers \<^verbatim>\<open>"complete"\<close> and the page source is \<open>page_answer\<close>.
\<close>

record script =
  nav_answer :: "nat \<Rightarrow> resp"
  quit_answer :: resp
  create_answer :: resp
  page_answer :: string

fun endpoint :: "script \<Rightarrow> cmd \<Rightarrow> nat \<Rightarrow> resp \<times> nat" where
  "endpoint sc (Get d url) s = (nav_answer sc s, Suc s)"
| "endpoint sc (Quit d) s = (quit_answer sc, s)"
| "endpoint sc NewSession s = (create_answer sc, s)"
| "endpoint sc (PageSource d) s = (Ok (page_answer sc), s)"
| "endpoint sc (ExecuteScript d js) s = (Ok (if js = ready_state then ''complete'' else []), s)"
| "endpoint sc (SetPageLoadTimeout d n) s = (Ok [], s)"

definition fake_env :: "script \<Rightarrow> nat env" where
  "fake_env sc = \<lparr>respond = endpoint sc, swapped = (\<lambda>d. False), polls = 20\<rparr>"

definition w0 :: "nat world" where
  "w0 = \<lparr>est = 0, trace = [], opened = 0\<rparr>"

text \<open>What a successful \<open>start\<close> of driver \<open>d\<close> sends to the scripted endpoint.\<close>

definition setup_events :: "driver \<Rightarrow> (cmd \<times> resp) list" where
  "setup_events d =
     [(NewSession, Ok []), (SetPageLoadTimeout d 20, Ok []),
      (ExecuteScript d hide_webdriver, Ok []),
      (ExecuteScript d scroll_down, Ok []), (ExecuteScript d scroll_up, Ok [])]"

text \<open>Every navigation succeeds, and the page is \<open>p\<close>.\<close>

definition serving :: "string \<Rightarrow> script" where
  "serving p = \<lparr>nav_answer = (\<lambda>n. Ok []), quit_answer = Ok [], create_answer = Ok [], page_answer = p\<rparr>"

text \<open>Every navigation fails with \<open>e\<close>.\<close>

definition failing :: "exn \<Rightarrow> script" where
  "failing e = \<lparr>nav_answer = (\<lambda>n. Raise e), quit_answer = Ok [], create_answer = Ok [], page_answer = []\<rparr>"

text \<open>The endpoint rejects every session creation.\<close>

definition rejecting :: script where
  "rejecting = \<lparr>nav_answer = (\<lambda>n. Ok []), quit_answer = Ok [], create_answer = Raise WebDriverException, page_answer = []\<rparr>"

text \<open>Every \<open>quit\<close> fails with \<open>e\<close>.\<close>

definition quit_failing :: "exn \<Rightarrow> script" where
  "quit_failing e = \<lparr>nav_answer = (\<lambda>n. Ok []), quit_answer = Raise e, create_answer = Ok [], page_answer = []\<rparr>"

section \<open>A grid of browsers\<close>

text \<open>
  An endpoint that keeps track of its sessions. Its state is the list of the sessions that
  were quit and the number of sessions created; it creates at most \<open>limit\<close> sessions and
  rejects any further creation; a command for a session that was quit, or never created,
  fails with \<open>InvalidSessionIdException\<close>; on a live session no page ever loads, every
  navigation times out.
\<close>

fun gone :: "driver list \<times> nat \<Rightarrow> driver \<Rightarrow> bool" where
  "gone (qs, n) d \<longleftrightarrow> d \<in> set qs \<or> n \<le> d"

fun grid :: "nat \<Rightarrow> cmd \<Rightarrow> driver list \<times> nat \<Rightarrow> resp \<times> (driver list \<times> nat)" where
  "grid limit NewSession (qs, n) =
     (if n < limit then (Ok [], (qs, Suc n)) else (Raise WebDriverException, (qs, n)))"
| "grid limit (Quit d) (qs, n) =
     (if gone (qs, n) d then (Raise InvalidSessionIdException, (qs, n)) else (Ok [], (d # qs, n)))"
| "grid limit (Get d url) (qs, n) =
     (if gone (qs, n) d then Raise InvalidSessionIdException else Raise TimeoutException, (qs, n))"
| "grid limit (ExecuteScript d js) (qs, n) =
     (if gone (qs, n) d then Raise InvalidSessionIdException
      else Ok (if js = ready_state then ''complete'' else []), (qs, n))"
| "grid limit (SetPageLoadTimeout d t) (qs, n) =
     (if gone (qs, n) d then Raise InvalidSessionIdException else Ok [], (qs, n))"
| "grid limit (PageSource d) (qs, n) =
     (if gone (qs, n) d then Raise InvalidSessionIdException else Ok [], (qs, n))"

definition grid_env :: "nat \<Rightarrow> (driver list \<times> nat) env" where
  "grid_env limit = \<lparr>respond = grid limit, swapped = (\<lambda>d. False), polls = 20\<rparr>"

text \<open>The world in which session 0 of the grid has been started and nothing else has happened.\<close>

definition started :: "(driver list \<times> nat) world" where
  "started = \<lparr>est = ([], 1), trace = setup_events 0, opened = 1\<rparr>"

section \<open>Noise removal in one pass\<close>

text \<open>
  The elements the passes of \<^verbatim>\<open>_remove_unwanted_elements\<close> look for: a tag name among the
  direct tags, or a pattern equal to a token of \<open>class\<close> or to the value of \<open>id\<close>.
\<close>

definition unwanted :: "node \<Rightarrow> bool" where
  "unwanted c \<longleftrightarrow>
     list_ex (\<lambda>tag. is_tag tag c) direct_tags_to_remove \<or>
     list_ex (\<lambda>pattern. has_attr ''class'' pattern c \<or> has_attr ''id'' pattern c)
       unwanted_patterns"

text \<open>A test on elements that does not look below the element.\<close>

definition shallow :: "(node \<Rightarrow> bool) \<Rightarrow> bool" where
  "shallow P \<longleftrightarrow> (\<forall>t a cs cs'. P (Element t a cs) = P (Element t a cs'))"

text \<open>
  The text \<^verbatim>\<open>_extract_paragraphs\<close> computes first, from the \<open>p\<close> and \<open>span\<close> elements
  left in the body \<open>body0\<close> of the parsed document.
\<close>

definition primary_text :: "node \<Rightarrow> string" where
  "primary_text body0 =
     (let body = remove_unwanted_elements body0
      in strip (extract_text_from_paragraphs (select ''p'' body @ select ''span'' body)))"

section \<open>Documents for concrete runs\<close>

text \<open>
  The tree the parser builds for a page whose \<open>body\<close> element has the attributes
  \<open>attrs\<close> and the content \<open>cs\<close>: the document, its \<open>html\<close> element, the body.
\<close>

definition document :: "(string \<times> attr_value) list \<Rightarrow> node list \<Rightarrow> node" where
  "document attrs cs = Element ''[document]'' [] [Element ''html'' [] [Element ''body'' attrs cs]]"

text \<open>
  The parser, known at one page source: \<open>doc\<close> is what
  \<^verbatim>\<open>BeautifulSoup(src, "lxml")\<close> returns; other sources are not looked at.
\<close>

definition parses_as :: "string \<Rightarrow> node \<Rightarrow> string \<Rightarrow> node" where
  "parses_as src doc s = (if s = src then doc else Element ''[document]'' [] [])"

text \<open>A page with one paragraph of plain text \<open>t\<close>, and its tree.\<close>

definition para_src :: "string \<Rightarrow> string" where
  "para_src t = ''<body><p>'' @ t @ ''</p></body>''"

definition para_doc :: "string \<Rightarrow> node" where
  "para_doc t = document [] [Element ''p'' [] [Text t]]"

text \<open>A page with an empty body.\<close>

definition empty_src :: string where
  "empty_src = ''<html><body></body></html>''"

definition empty_doc :: node where
  "empty_doc = document [] []"



text \<open>A page with a navigation bar before its one short paragraph.\<close>

definition nav_src :: string where
  "nav_src = ''<body><nav>skip</nav><p>short</p></body>''"

definition nav_doc :: node where
  "nav_doc = document [] [Element ''nav'' [] [Text ''skip''], Element ''p'' [] [Text ''short'']]"

section \<open>Reading traces\<close>

lemma kinds_append [simp]: "kinds (xs @ ys) = kinds xs @ kinds ys"
  by (simp add: kinds_def)

lemma nav_results_append [simp]: "nav_results (xs @ ys) = nav_results xs @ nav_results ys"
  by (simp add: nav_results_def)

lemma nav_results_simps [simp]:
  "nav_results [] = []"
  "nav_results ((c, r) # xs) = (if is_Get c then r # nav_results xs else nav_results xs)"
  by (simp_all add: nav_results_def)

lemma kinds_simps [simp]:
  "kinds [] = []"
  "kinds ((c, r) # xs) = kind_of c @ kinds xs"
  by (simp_all add: kinds_def)

lemma execute_trace:
  "execute env c w = (r, w') \<Longrightarrow> trace w' = trace w @ [(c, r)] \<and> opened w' = opened w"
  by (auto simp: execute_def split: prod.splits)

lemma command_trace:
  "command env c w = (r, w') \<Longrightarrow>
     \<exists>x. trace w' = trace w @ [(c, x)] \<and> opened w' = opened w \<and> (is_Ok x \<longleftrightarrow> r = Inr ())
       \<and> (\<forall>e. r = Inl e \<longleftrightarrow> x = Raise e)"
  by (auto simp: command_def split: prod.splits resp.splits dest!: execute_trace)

lemma run_actions_trace:
  "run_actions env d as w = (r, w') \<Longrightarrow>
     \<exists>new. trace w' = trace w @ new \<and> kinds new = [] \<and> nav_results new = []"
proof (induction as arbitrary: w)
  case Nil
  then show ?case by (auto simp: kinds_def nav_results_def)
next
  case (Cons a as)
  then show ?case
    by (fastforce simp: kinds_def nav_results_def split: prod.splits sum.splits dest!: command_trace)
qed

lemma start_trace:
  "start env w = (r, w') \<Longrightarrow>
     \<exists>new. trace w' = trace w @ new \<and> kinds new = [Create] \<and> nav_results new = []"
  unfolding start_def create_firefox_driver_def imitate_user_behavior_def
  by (fastforce simp: kinds_def nav_results_def split: prod.splits sum.splits resp.splits
        dest!: command_trace execute_trace run_actions_trace)

lemma stop_trace:
  "stop env d w = (r, w') \<Longrightarrow> \<exists>x. trace w' = trace w @ [(Quit d, x)]"
  unfolding stop_def
  by (fastforce split: prod.splits sum.splits if_splits dest!: command_trace)


declare safe_get_loop.simps [simp del]

lemma loop_done: "\<not> r < 3 \<Longrightarrow> safe_get_loop env m r d w = (Inr False, w)"
  by (subst safe_get_loop.simps) simp

lemma loop_ok: "r < 3 \<Longrightarrow> m w = (Inr u, w1) \<Longrightarrow> safe_get_loop env m r d w = (Inr True, w1)"
  by (subst safe_get_loop.simps) simp

lemma loop_raise:
  "r < 3 \<Longrightarrow> m w = (Inl ex, w1) \<Longrightarrow> \<not> is_WebDriverException ex \<Longrightarrow>
     safe_get_loop env m r d w = (Inl ex, w1)"
  by (subst safe_get_loop.simps) simp

lemma loop_last:
  "r < 3 \<Longrightarrow> m w = (Inl ex, w1) \<Longrightarrow> is_WebDriverException ex \<Longrightarrow> \<not> r + 1 < 3 \<Longrightarrow>
     safe_get_loop env m r d w = safe_get_loop env m (r + 1) d w1"
  by (subst safe_get_loop.simps) simp

lemma loop_retry:
  "r < 3 \<Longrightarrow> m w = (Inl ex, w1) \<Longrightarrow> is_WebDriverException ex \<Longrightarrow> r + 1 < 3 \<Longrightarrow>
     safe_get_loop env m r d w =
       (case stop env d w1 of
          (Inl e, w2) \<Rightarrow> (Inl e, w2)
        | (Inr u, w2) \<Rightarrow>
            (case start env w2 of
               (Inl e, w3) \<Rightarrow> (Inl e, w3)
             | (Inr d', w3) \<Rightarrow> safe_get_loop env m (r + 1) d' w3))"
  by (subst safe_get_loop.simps) simp

lemma safe_get_loop_bound:
  "safe_get_loop env (driver_get env d0 url) r d w = (res, w') \<Longrightarrow>
     \<exists>new. trace w' = trace w @ new \<and> length (nav_results new) \<le> 3 - r"
proof (induction env "driver_get env d0 url" r d w arbitrary: res w' rule: safe_get_loop.induct)
  case (1 env retries d w)
  show ?case
  proof (cases "retries < 3")
    case False
    with "1.prems" show ?thesis by (simp add: loop_done)
  next
    case lt: True
    obtain x w1 where m: "driver_get env d0 url w = (x, w1)" by force
    from m obtain y where t1: "trace w1 = trace w @ [(Get d0 url, y)]"
      unfolding driver_get_def by (auto dest!: command_trace)
    have n1: "nav_results [(Get d0 url, y)] = [y]" by (simp add: nav_results_def)
    show ?thesis
    proof (cases x)
      case (Inr u)
      with "1.prems" lt m t1 n1 show ?thesis by (auto simp: loop_ok)
    next
      case (Inl ex)
      show ?thesis
      proof (cases "is_WebDriverException ex")
        case False
        with "1.prems" lt m t1 n1 Inl show ?thesis by (auto simp: loop_raise)
      next
        case wde: True
        show ?thesis
        proof (cases "retries + 1 < 3")
          case False
          with "1.prems" lt m Inl wde
          have "safe_get_loop env (driver_get env d0 url) (retries + 1) d w1 = (res, w')"
            by (simp add: loop_last)
          from "1.hyps"(2)[OF lt m[symmetric] Inl wde False this] t1 n1 lt False
          show ?thesis by auto
        next
          case lt2: True
          obtain p w2 where st: "stop env d w1 = (p, w2)" by force
          then obtain q where t2: "trace w2 = trace w1 @ [(Quit d, q)]" by (auto dest!: stop_trace)
          have n2: "nav_results [(Quit d, q)] = []" by (simp add: nav_results_def)
          show ?thesis
          proof (cases p)
            case pl: (Inl e)
            with "1.prems" lt m Inl wde lt2 st t1 t2 n1 n2 show ?thesis by (auto simp: loop_retry)
          next
            case pr: (Inr u)
            obtain a w3 where sa: "start env w2 = (a, w3)" by force
            then obtain sn where t3: "trace w3 = trace w2 @ sn" "nav_results sn = []"
              by (auto dest!: start_trace)
            show ?thesis
            proof (cases a)
              case al: (Inl e)
              with "1.prems" lt m Inl wde lt2 st pr sa t1 t2 t3 n1 n2 show ?thesis
                by (auto simp: loop_retry)
            next
              case ar: (Inr d')
              with "1.prems" lt m Inl wde lt2 st pr sa
              have "safe_get_loop env (driver_get env d0 url) (retries + 1) d' w3 = (res, w')"
                by (simp add: loop_retry)
              from "1.hyps"(1)[OF lt m[symmetric] Inl wde lt2 st[symmetric] pr sa[symmetric] ar this]
                   t1 t2 t3 n1 n2 lt lt2
              show ?thesis by auto
            qed
          qed
        qed
      qed
    qed
  qed
qed


section \<open>The retry engine on a calm endpoint\<close>

lemma execute_calm:
  assumes "calm env" "\<not> is_Get c" "\<not> is_Quit c"
  shows "\<exists>v w'. execute env c w = (Ok v, w') \<and> trace w' = trace w @ [(c, Ok v)] \<and> opened w' = opened w"
proof -
  obtain r s' where rs: "respond env c (est w) = (r, s')" by force
  with assms have "is_Ok r" unfolding calm_def by (metis fst_conv)
  then obtain v where "r = Ok v" by (cases r) auto
  with rs show ?thesis by (simp add: execute_def)
qed

lemma command_calm:
  assumes "calm env" "\<not> is_Get c" "\<not> is_Quit c"
  shows "\<exists>v w'. command env c w = (Inr (), w') \<and> trace w' = trace w @ [(c, Ok v)] \<and> opened w' = opened w"
  using execute_calm[OF assms, of w] by (auto simp: command_def)

lemma stop_calm:
  assumes "calm env"
  shows "\<exists>x w'. stop env d w = (Inr (), w') \<and> trace w' = trace w @ [(Quit d, x)]"
proof -
  obtain r s' where rs: "respond env (Quit d) (est w) = (r, s')" by force
  show ?thesis
  proof (cases r)
    case (Ok v)
    with rs show ?thesis by (simp add: stop_def command_def execute_def)
  next
    case (Raise e)
    with rs assms have "is_WebDriverException e" unfolding calm_def by (metis fst_conv)
    with rs Raise show ?thesis by (simp add: stop_def command_def execute_def)
  qed
qed

lemma run_actions_calm:
  assumes "calm env"
  shows "\<exists>w' new. run_actions env d as w = (Inr (), w') \<and> trace w' = trace w @ new
           \<and> kinds new = [] \<and> nav_results new = []"
proof (induction as arbitrary: w)
  case Nil
  show ?case by simp
next
  case (Cons a as)
  obtain v w1 where c: "command env (ExecuteScript d a) w = (Inr (), w1)"
      "trace w1 = trace w @ [(ExecuteScript d a, Ok v)]"
    using command_calm[OF assms, of "ExecuteScript d a" w] by auto
  from Cons.IH[of w1] obtain w' new where
    "run_actions env d as w1 = (Inr (), w')" "trace w' = trace w1 @ new"
    "kinds new = []" "nav_results new = []" by blast
  with c show ?case by simp
qed

lemma start_calm:
  assumes "calm env"
  shows "\<exists>w' new. start env w = (Inr (opened w), w') \<and> trace w' = trace w @ new
           \<and> kinds new = [Create] \<and> nav_results new = []"
proof -
  obtain v0 w0 where c0: "execute env NewSession w = (Ok v0, w0)"
      "trace w0 = trace w @ [(NewSession, Ok v0)]"
    using execute_calm[OF assms, of NewSession w] by auto
  let ?d = "opened w"
  let ?w1 = "w0\<lparr>opened := Suc (opened w)\<rparr>"
  obtain v2 w2 where c2: "command env (SetPageLoadTimeout ?d 20) ?w1 = (Inr (), w2)"
      "trace w2 = trace ?w1 @ [(SetPageLoadTimeout ?d 20, Ok v2)]"
    using command_calm[OF assms, of "SetPageLoadTimeout ?d 20" ?w1] by auto
  obtain v3 w3 where c3: "command env (ExecuteScript ?d hide_webdriver) w2 = (Inr (), w3)"
      "trace w3 = trace w2 @ [(ExecuteScript ?d hide_webdriver, Ok v3)]"
    using command_calm[OF assms, of "ExecuteScript ?d hide_webdriver" w2] by auto
  obtain w4 new where c4: "imitate_user_behavior env ?d w3 = (Inr (), w4)"
      "trace w4 = trace w3 @ new" "kinds new = []" "nav_results new = []"
    unfolding imitate_user_behavior_def using run_actions_calm[OF assms, of ?d _ w3] by blast
  from c0 c2 c3 c4 show ?thesis
    by (simp add: start_def create_firefox_driver_def)
qed

lemma driver_get_calm:
  assumes "calm env"
  shows "\<exists>x w'. trace w' = trace w @ [(Get d url, x)] \<and>
           ((is_Ok x \<and> driver_get env d url w = (Inr (), w')) \<or>
            (\<exists>e. x = Raise e \<and> is_WebDriverException e \<and> driver_get env d url w = (Inl e, w')))"
proof -
  obtain r s' where rs: "respond env (Get d url) (est w) = (r, s')" by force
  show ?thesis
  proof (cases r)
    case (Ok v)
    with rs show ?thesis by (simp add: driver_get_def command_def execute_def)
  next
    case (Raise e)
    with rs assms have "is_WebDriverException e" unfolding calm_def by (metis fst_conv)
    with rs Raise show ?thesis by (simp add: driver_get_def command_def execute_def)
  qed
qed

lemma safe_get_loop_calm_3:
  "\<exists>b w' new. safe_get_loop env (driver_get env d0 url) 3 d w = (Inr b, w') \<and>
      trace w' = trace w @ new \<and> retry_shape (Get d0 url) 0 b new"
proof -
  have "safe_get_loop env (driver_get env d0 url) 3 d w = (Inr False, w)"
    by (simp add: loop_done)
  moreover have "retry_shape (Get d0 url) 0 False []" by (simp add: retry_shape_def)
  ultimately show ?thesis by force
qed

lemma safe_get_loop_calm_step:
  assumes "calm env" and r: "r < 3"
    and IH: "\<And>d w. \<exists>b w' new. safe_get_loop env (driver_get env d0 url) (r + 1) d w = (Inr b, w') \<and>
      trace w' = trace w @ new \<and> retry_shape (Get d0 url) (3 - (r + 1)) b new"
  shows "\<exists>b w' new. safe_get_loop env (driver_get env d0 url) r d w = (Inr b, w') \<and>
      trace w' = trace w @ new \<and> retry_shape (Get d0 url) (3 - r) b new"
proof -
  from driver_get_calm[OF assms(1), of w d0 url] obtain x w1 where
    t1: "trace w1 = trace w @ [(Get d0 url, x)]" and
    alt: "(is_Ok x \<and> driver_get env d0 url w = (Inr (), w1)) \<or>
          (\<exists>e. x = Raise e \<and> is_WebDriverException e \<and> driver_get env d0 url w = (Inl e, w1))"
    by blast
  from alt show ?thesis
  proof
    assume "is_Ok x \<and> driver_get env d0 url w = (Inr (), w1)"
    with r t1 have "safe_get_loop env (driver_get env d0 url) r d w = (Inr True, w1)"
      and "retry_shape (Get d0 url) (3 - r) True [(Get d0 url, x)]"
      by (simp_all add: retry_shape_def loop_ok)
    with t1 show ?thesis by blast
  next
    assume "\<exists>e. x = Raise e \<and> is_WebDriverException e \<and> driver_get env d0 url w = (Inl e, w1)"
    then obtain e where e: "x = Raise e" "is_WebDriverException e"
      "driver_get env d0 url w = (Inl e, w1)" by blast
    show ?thesis
    proof (cases "r + 1 < 3")
      case False
      with r have r2: "r = 2" by simp
      from e r2 have "safe_get_loop env (driver_get env d0 url) r d w = (Inr False, w1)"
        by (simp add: loop_last loop_done)
      moreover from e r2 have "retry_shape (Get d0 url) (3 - r) False [(Get d0 url, x)]"
        by (simp add: retry_shape_def)
      ultimately show ?thesis using t1 by blast
    next
      case True
      obtain q w2 where s: "stop env d w1 = (Inr (), w2)" "trace w2 = trace w1 @ [(Quit d, q)]"
        using stop_calm[OF assms(1), of d w1] by blast
      obtain w3 sn where a: "start env w2 = (Inr (opened w2), w3)" "trace w3 = trace w2 @ sn"
        "kinds sn = [Create]" "nav_results sn = []"
        using start_calm[OF assms(1), of w2] by blast
      from IH[of "opened w2" w3] obtain b w' new where
        l: "safe_get_loop env (driver_get env d0 url) (r + 1) (opened w2) w3 = (Inr b, w')"
           "trace w' = trace w3 @ new" "retry_shape (Get d0 url) (3 - (r + 1)) b new" by blast
      from e r True s a l have
        "safe_get_loop env (driver_get env d0 url) r d w = (Inr b, w')" by (simp add: loop_retry)
      moreover have "trace w' = trace w @ ((Get d0 url, x) # (Quit d, q) # sn @ new)"
        using t1 s a l by simp
      moreover have "retry_shape (Get d0 url) (3 - r) b ((Get d0 url, x) # (Quit d, q) # sn @ new)"
      proof -
        from True have pos: "0 < 3 - (r + 1)" by simp
        with l(3) have ne: "nav_results new \<noteq> []" by (simp add: retry_shape_def Let_def)
        then obtain n where n: "length (nav_results new) = Suc n" by (cases "nav_results new") auto
        from ne l(3) have newne: "new \<noteq> []" by auto
        show ?thesis using l(3) a(3,4) e(1) ne n newne True
          by (auto simp: retry_shape_def Let_def butlast_append)
      qed
      ultimately show ?thesis by blast
    qed
  qed
qed

lemma safe_get_loop_calm:
  assumes "calm env" and "r \<le> 3"
  shows "\<exists>b w' new. safe_get_loop env (driver_get env d0 url) r d w = (Inr b, w') \<and>
      trace w' = trace w @ new \<and> retry_shape (Get d0 url) (3 - r) b new"
proof -
  note step = safe_get_loop_calm_step[OF assms(1)]
  have 3: "\<exists>b w' new. safe_get_loop env (driver_get env d0 url) 3 d w = (Inr b, w') \<and>
      trace w' = trace w @ new \<and> retry_shape (Get d0 url) (3 - 3) b new" for d w
    using safe_get_loop_calm_3[of env d0 url d w] by simp
  have 2: "\<exists>b w' new. safe_get_loop env (driver_get env d0 url) 2 d w = (Inr b, w') \<and>
      trace w' = trace w @ new \<and> retry_shape (Get d0 url) (3 - 2) b new" for d w
    using step[of 2 d0 url d w] 3 by (simp add: numeral_3_eq_3)
  have 1: "\<exists>b w' new. safe_get_loop env (driver_get env d0 url) 1 d w = (Inr b, w') \<and>
      trace w' = trace w @ new \<and> retry_shape (Get d0 url) (3 - 1) b new" for d w
    using step[of 1 d0 url d w] 2 by (simp add: numeral_2_eq_2)
  have 0: "\<exists>b w' new. safe_get_loop env (driver_get env d0 url) 0 d w = (Inr b, w') \<and>
      trace w' = trace w @ new \<and> retry_shape (Get d0 url) (3 - 0) b new" for d w
    using step[of 0 d0 url d w] 1 by simp
  from assms(2) have "r = 0 \<or> r = 1 \<or> r = 2 \<or> r = 3" by arith
  with 0 1 2 3 show ?thesis by blast
qed

section \<open>Runs on the scripted endpoint\<close>

lemma execute_fake:
  "execute (fake_env sc) c w =
     (fst (endpoint sc c (est w)),
      w\<lparr>est := snd (endpoint sc c (est w)),
        trace := trace w @ [(c, fst (endpoint sc c (est w)))]\<rparr>)"
  by (simp add: execute_def fake_env_def split: prod.splits)

lemma calm_fake:
  assumes "\<And>n e. nav_answer sc n = Raise e \<Longrightarrow> is_WebDriverException e"
    and "\<And>e. quit_answer sc = Raise e \<Longrightarrow> is_WebDriverException e"
    and "is_Ok (create_answer sc)"
  shows "calm (fake_env sc)"
  unfolding calm_def
proof (intro conjI allI impI)
  fix c s
  assume "\<not> is_Get c \<and> \<not> is_Quit c"
  then show "is_Ok (fst (respond (fake_env sc) c s))"
    using assms(3) by (cases c) (simp_all add: fake_env_def)
next
  fix c s e
  assume "fst (respond (fake_env sc) c s) = Raise e"
  then show "is_WebDriverException e"
    using assms by (cases c) (auto simp: fake_env_def)
qed

section \<open>Session handling on the scripted endpoint\<close>

lemma quits_simps [simp]:
  "quits [] = []"
  "quits ((c, r) # xs) = (case c of Quit d \<Rightarrow> [d] | _ \<Rightarrow> []) @ quits xs"
  "quits (xs @ ys) = quits xs @ quits ys"
  by (simp_all add: quits_def)

lemma setup_events_obs [simp]:
  "kinds (setup_events d) = [Create]"
  "nav_results (setup_events d) = []"
  "quits (setup_events d) = []"
  by (simp_all add: setup_events_def)

lemma start_fake:
  "create_answer sc = Ok [] \<Longrightarrow>
   start (fake_env sc) w =
     (Inr (opened w), w\<lparr>trace := trace w @ setup_events (opened w), opened := Suc (opened w)\<rparr>)"
  by (simp add: start_def create_firefox_driver_def command_def execute_fake
      imitate_user_behavior_def setup_events_def fake_env_def[THEN arg_cong, of swapped]
      hide_webdriver_def scroll_down_def scroll_up_def ready_state_def)

lemma start_fake_rejected:
  "create_answer sc = Raise e \<Longrightarrow>
   start (fake_env sc) w = (Inl e, w\<lparr>trace := trace w @ [(NewSession, Raise e)]\<rparr>)"
  by (simp add: start_def create_firefox_driver_def execute_fake)

lemma stop_fake:
  "stop (fake_env sc) d w =
     ((case quit_answer sc of
         Ok v \<Rightarrow> Inr ()
       | Raise e \<Rightarrow> if is_WebDriverException e then Inr () else Inl e),
      w\<lparr>trace := trace w @ [(Quit d, quit_answer sc)]\<rparr>)"
  by (simp add: stop_def command_def execute_fake split: resp.splits)

lemma get_fake:
  "driver_get (fake_env sc) d url w =
     ((case nav_answer sc (est w) of Ok v \<Rightarrow> Inr () | Raise e \<Rightarrow> Inl e),
      w\<lparr>est := Suc (est w), trace := trace w @ [(Get d url, nav_answer sc (est w))]\<rparr>)"
  by (simp add: driver_get_def command_def execute_fake split: resp.splits)

lemma until_ready_fake:
  "until_ready (fake_env sc) d n w =
     (Inr (), w\<lparr>trace := trace w @ [(ExecuteScript d ready_state, Ok ''complete'')]\<rparr>)"
  by (cases n) (simp_all add: execute_fake)

declare until_ready.simps [simp del]

lemma page_source_fake:
  "execute (fake_env sc) (PageSource d) w =
     (Ok (page_answer sc), w\<lparr>trace := trace w @ [(PageSource d, Ok (page_answer sc))]\<rparr>)"
  by (simp add: execute_fake)

text \<open>Three failed navigations on an endpoint that fails every navigation with \<open>e\<close>.\<close>

lemma safe_get_failing:
  assumes "is_WebDriverException e"
  shows "safe_get (fake_env (failing e)) d (driver_get (fake_env (failing e)) d url) w =
     (Inr False,
      w\<lparr>est := Suc (Suc (Suc (est w))),
        trace := trace w @ (Get d url, Raise e) # (Quit d, Ok []) #
                  setup_events (opened w) @ (Get d url, Raise e) #
                  (Quit (opened w), Ok []) # setup_events (Suc (opened w)) @
                  [(Get d url, Raise e)],
        opened := Suc (Suc (opened w))\<rparr>)"
proof -
  let ?E = "fake_env (failing e)"
  have g: "driver_get ?E d url v =
      (Inl e, v\<lparr>est := Suc (est v), trace := trace v @ [(Get d url, Raise e)]\<rparr>)" for v
    by (simp add: get_fake failing_def)
  have s: "stop ?E d' v = (Inr (), v\<lparr>trace := trace v @ [(Quit d', Ok [])]\<rparr>)" for d' v
    by (simp add: stop_fake failing_def)
  have a: "start ?E v =
      (Inr (opened v), v\<lparr>trace := trace v @ setup_events (opened v), opened := Suc (opened v)\<rparr>)" for v
    by (rule start_fake) (simp add: failing_def)
  show ?thesis
    unfolding safe_get_def
    apply (subst loop_retry[OF _ g assms], simp, simp)
    apply (simp add: s a)
    apply (subst loop_retry[OF _ g assms], simp, simp)
    apply (simp add: s a)
    apply (subst loop_last[OF _ g assms], simp, simp)
    apply (simp add: loop_done)
    done
qed

lemma failing_answers [simp]:
  "nav_answer (failing e) n = Raise e"
  "quit_answer (failing e) = Ok []"
  "create_answer (failing e) = Ok []"
  "page_answer (failing e) = []"
  by (simp_all add: failing_def)

lemma serving_answers [simp]:
  "nav_answer (serving p) n = Ok []"
  "quit_answer (serving p) = Ok []"
  "create_answer (serving p) = Ok []"
  "page_answer (serving p) = p"
  by (simp_all add: serving_def)

lemma fetch_url_failing:
  assumes "is_WebDriverException e"
  shows "fetch_url (fake_env (failing e)) url w =
     (Inr (Some NOT_RESPONDING),
      w\<lparr>est := Suc (Suc (Suc (est w))),
        trace := trace w @ setup_events (opened w) @
                  (Get (opened w) url, Raise e) # (Quit (opened w), Ok []) #
                  setup_events (Suc (opened w)) @ (Get (opened w) url, Raise e) #
                  (Quit (Suc (opened w)), Ok []) # setup_events (Suc (Suc (opened w))) @
                  [(Get (opened w) url, Raise e), (Quit (opened w), Ok [])],
        opened := Suc (Suc (Suc (opened w)))\<rparr>)"
  by (simp add: fetch_url_def fetch_body_def start_fake safe_get_failing[OF assms] stop_fake)

lemma safe_get_serving:
  "safe_get (fake_env (serving p)) d (driver_get (fake_env (serving p)) d url) w =
     (Inr True, w\<lparr>est := Suc (est w), trace := trace w @ [(Get d url, Ok [])]\<rparr>)"
  unfolding safe_get_def
  by (subst loop_ok[where u="()"]) (simp_all add: get_fake)

lemma fetch_url_serving:
  "fetch_url (fake_env (serving p)) url w =
     (Inr (Some p),
      w\<lparr>est := Suc (est w),
        trace := trace w @ setup_events (opened w) @
                  [(Get (opened w) url, Ok []),
                   (ExecuteScript (opened w) ready_state, Ok ''complete''),
                   (PageSource (opened w), Ok p), (Quit (opened w), Ok [])],
        opened := Suc (opened w)\<rparr>)"
  by (simp add: fetch_url_def fetch_body_def start_fake safe_get_serving until_ready_fake
      page_source_fake stop_fake)

section \<open>Every way out of the retry engine\<close>

lemma stop_raises: "stop env d w = (Inl e, w') \<Longrightarrow> \<not> is_WebDriverException e"
  by (auto simp: stop_def split: prod.splits sum.splits if_splits)

lemma attempts_pattern_Suc:
  "0 < k \<Longrightarrow> Nav # Teardown # Create # attempts_pattern k = attempts_pattern (Suc k)"
  by (cases k) simp_all

lemma loop_shape_3:
  assumes "safe_get_loop env m 3 d w = (res, w')"
  shows "\<exists>new. trace w' = trace w @ new \<and> outcome_shape nav 0 res new"
proof -
  from assms have "res = Inr False" "w' = w" by (simp_all add: loop_done)
  then show ?thesis by (auto simp: outcome_shape_def retry_shape_def)
qed

lemma loop_shape_step:
  assumes r: "r < 3"
    and IH: "\<And>d w res w'. safe_get_loop env (driver_get env d0 url) (r + 1) d w = (res, w') \<Longrightarrow>
               \<exists>new. trace w' = trace w @ new \<and> outcome_shape (Get d0 url) (3 - (r + 1)) res new"
    and run: "safe_get_loop env (driver_get env d0 url) r d w = (res, w')"
  shows "\<exists>new. trace w' = trace w @ new \<and> outcome_shape (Get d0 url) (3 - r) res new"
proof -
  let ?m = "driver_get env d0 url"
  let ?nav = "Get d0 url"
  obtain x w1 where m: "?m w = (x, w1)" by force
  from m obtain y where t1: "trace w1 = trace w @ [(?nav, y)]"
    and y: "is_Ok y \<longleftrightarrow> x = Inr ()" "\<And>e. x = Inl e \<longleftrightarrow> y = Raise e"
    unfolding driver_get_def by (auto dest!: command_trace)
  show ?thesis
  proof (cases x)
    case (Inr u)
    with r m run have "res = Inr True" "w' = w1" by (simp_all add: loop_ok)
    moreover from Inr y r have "outcome_shape ?nav (3 - r) (Inr True) [(?nav, y)]"
      by (auto simp: outcome_shape_def retry_shape_def)
    ultimately show ?thesis using t1 by blast
  next
    case (Inl ex)
    from y(2)[of ex] Inl have yex: "y = Raise ex" by simp
    show ?thesis
    proof (cases "is_WebDriverException ex")
      case False
      with r m Inl run have "res = Inl ex" "w' = w1" by (simp_all add: loop_raise)
      moreover from False yex r have "outcome_shape ?nav (3 - r) (Inl ex) [(?nav, y)]"
        by (auto simp: outcome_shape_def abort_shape_def)
      ultimately show ?thesis using t1 by blast
    next
      case wde: True
      show ?thesis
      proof (cases "r + 1 < 3")
        case False
        with r have r2: "r = 2" by simp
        from r m Inl wde False run have "res = Inr False" "w' = w1"
          using r2 by (simp_all add: loop_last loop_done)
        moreover from yex r2 have "outcome_shape ?nav (3 - r) (Inr False) [(?nav, y)]"
          by (auto simp: outcome_shape_def retry_shape_def)
        ultimately show ?thesis using t1 by blast
      next
        case lt2: True
        note unf = loop_retry[where m="?m" and w=w and env=env and d=d, OF r m[unfolded Inl] wde lt2]
        obtain p w2 where st: "stop env d w1 = (p, w2)" by force
        then obtain q where t2: "trace w2 = trace w1 @ [(Quit d, q)]" by (auto dest!: stop_trace)
        show ?thesis
        proof (cases p)
          case pl: (Inl e)
          with unf st run have "res = Inl e" "w' = w2" by simp_all
          moreover from st pl have "\<not> is_WebDriverException e" by (auto dest: stop_raises)
          with yex lt2 have "outcome_shape ?nav (3 - r) (Inl e) [(?nav, y), (Quit d, q)]"
            by (auto simp: outcome_shape_def abort_shape_def)
          moreover have "trace w2 = trace w @ [(?nav, y), (Quit d, q)]" using t1 t2 by simp
          ultimately show ?thesis by blast
        next
          case pr: (Inr u)
          obtain a w3 where sa: "start env w2 = (a, w3)" by force
          then obtain sn where t3: "trace w3 = trace w2 @ sn"
            and sn: "kinds sn = [Create]" "nav_results sn = []"
            by (auto dest!: start_trace)
          show ?thesis
          proof (cases a)
            case al: (Inl e)
            with unf st pr sa run have "res = Inl e" "w' = w3" by simp_all
            moreover from yex lt2 sn have
              "outcome_shape ?nav (3 - r) (Inl e) ((?nav, y) # (Quit d, q) # sn)"
              by (auto simp: outcome_shape_def abort_shape_def)
            moreover have "trace w3 = trace w @ ((?nav, y) # (Quit d, q) # sn)"
              using t1 t2 t3 by simp
            ultimately show ?thesis by blast
          next
            case ar: (Inr d')
            with unf st pr sa run have
              "safe_get_loop env ?m (r + 1) d' w3 = (res, w')" by simp
            from IH[OF this] obtain new where
              t4: "trace w' = trace w3 @ new" and sh: "outcome_shape ?nav (3 - (r + 1)) res new"
              by blast
            have tr: "trace w' = trace w @ ((?nav, y) # (Quit d, q) # sn @ new)"
              using t1 t2 t3 t4 by simp
            have "outcome_shape ?nav (3 - r) res ((?nav, y) # (Quit d, q) # sn @ new)"
            proof (cases res)
              case (Inr b)
              with sh have rs: "retry_shape ?nav (3 - (r + 1)) b new" by (simp add: outcome_shape_def)
              from lt2 have pos: "0 < 3 - (r + 1)" by simp
              with rs have ne: "nav_results new \<noteq> []" by (simp add: retry_shape_def Let_def)
              then obtain n where n: "length (nav_results new) = Suc n"
                by (cases "nav_results new") auto
              from ne have newne: "new \<noteq> []" by auto
              have "retry_shape ?nav (3 - r) b ((?nav, y) # (Quit d, q) # sn @ new)"
                using rs sn yex ne n newne lt2
                by (auto simp: retry_shape_def Let_def butlast_append)
              with Inr show ?thesis by (simp add: outcome_shape_def)
            next
              case (Inl e)
              with sh have ab: "abort_shape ?nav (3 - (r + 1)) e new" by (simp add: outcome_shape_def)
              then have ne: "nav_results new \<noteq> []" by (simp add: abort_shape_def Let_def)
              then obtain n where n: "length (nav_results new) = Suc n"
                by (cases "nav_results new") auto
              from ne have newne: "new \<noteq> []" by auto
              have "abort_shape ?nav (3 - r) e ((?nav, y) # (Quit d, q) # sn @ new)"
                using ab sn yex ne n newne lt2
                by (auto simp: abort_shape_def Let_def)
              with Inl show ?thesis by (simp add: outcome_shape_def)
            qed
            with tr show ?thesis by blast
          qed
        qed
      qed
    qed
  qed
qed

lemma safe_get_shape:
  assumes "safe_get env d (driver_get env d url) w = (res, w')"
  shows "\<exists>new. trace w' = trace w @ new \<and> outcome_shape (Get d url) 3 res new"
proof -
  note step = loop_shape_step[where env=env and ?d0.0=d and url=url]
  have 2: "\<exists>new. trace w' = trace w @ new \<and> outcome_shape (Get d url) 1 res new"
    if "safe_get_loop env (driver_get env d url) 2 d' w = (res, w')" for d' w res w'
    using step[of 2 d' w res w'] loop_shape_3[of env "driver_get env d url" _ _ _ _ "Get d url"] that
    by (simp add: numeral_3_eq_3)
  have 1: "\<exists>new. trace w' = trace w @ new \<and> outcome_shape (Get d url) 2 res new"
    if "safe_get_loop env (driver_get env d url) 1 d' w = (res, w')" for d' w res w'
    using step[of 1 d' w res w'] 2 that by (simp add: numeral_2_eq_2)
  show ?thesis
    using step[of 0 d w res w'] 1 assms unfolding safe_get_def by simp
qed


section \<open>Runs on the grid\<close>

lemma execute_grid:
  "execute (grid_env limit) c w =
     (fst (grid limit c (est w)),
      w\<lparr>est := snd (grid limit c (est w)),
        trace := trace w @ [(c, fst (grid limit c (est w)))]\<rparr>)"
  by (simp add: execute_def grid_env_def split: prod.splits)

lemma start_grid_first:
  "0 < limit \<Longrightarrow> start (grid_env limit) \<lparr>est = ([], 0), trace = [], opened = 0\<rparr> = (Inr 0, started)"
  by (simp add: start_def create_firefox_driver_def command_def execute_grid
      imitate_user_behavior_def setup_events_def grid_env_def[THEN arg_cong, of swapped]
      hide_webdriver_def scroll_down_def scroll_up_def ready_state_def started_def)

lemma start_grid:
  "est w = (qs, n) \<Longrightarrow> opened w = n \<Longrightarrow> n < limit \<Longrightarrow> n \<notin> set qs \<Longrightarrow>
   start (grid_env limit) w =
     (Inr n, w\<lparr>est := (qs, Suc n), trace := trace w @ setup_events n, opened := Suc n\<rparr>)"
  by (simp add: start_def create_firefox_driver_def command_def execute_grid
      imitate_user_behavior_def setup_events_def grid_env_def[THEN arg_cong, of swapped]
      hide_webdriver_def scroll_down_def scroll_up_def ready_state_def)

lemma start_grid_full:
  "est w = (qs, n) \<Longrightarrow> \<not> n < limit \<Longrightarrow>
   start (grid_env limit) w =
     (Inl WebDriverException, w\<lparr>trace := trace w @ [(NewSession, Raise WebDriverException)]\<rparr>)"
  by (simp add: start_def create_firefox_driver_def execute_grid)

lemma stop_grid:
  "est w = (qs, n) \<Longrightarrow>
   stop (grid_env limit) d w =
     (Inr (), w\<lparr>est := (if gone (qs, n) d then (qs, n) else (d # qs, n)),
               trace := trace w @ [(Quit d, if gone (qs, n) d then Raise InvalidSessionIdException else Ok [])]\<rparr>)"
  by (simp add: stop_def command_def execute_grid)

lemma get_grid:
  "est w = (qs, n) \<Longrightarrow>
   driver_get (grid_env limit) d url w =
     (Inl (if gone (qs, n) d then InvalidSessionIdException else TimeoutException),
      w\<lparr>trace := trace w @ [(Get d url, Raise (if gone (qs, n) d then InvalidSessionIdException else TimeoutException))]\<rparr>)"
  by (simp add: driver_get_def command_def execute_grid)

lemma safe_get_grid_full:
  "safe_get (grid_env 1) 0 (driver_get (grid_env 1) 0 url) started =
     (Inl WebDriverException,
      started\<lparr>est := ([0], 1),
              trace := setup_events 0 @
                 [(Get 0 url, Raise TimeoutException), (Quit 0, Ok []),
                  (NewSession, Raise WebDriverException)]\<rparr>)"
  unfolding safe_get_def
  apply (subst loop_retry[where ex=TimeoutException])
      apply simp
     apply (simp add: get_grid[where qs="[]" and n=1] started_def)
    apply simp
   apply simp
  apply (simp add: stop_grid[where qs="[]" and n=1] start_grid_full[where qs="[0]" and n=1] started_def)
  done

lemma safe_get_grid:
  "safe_get (grid_env 3) 0 (driver_get (grid_env 3) 0 url) started =
     (Inr False,
      started\<lparr>est := ([1, 0], 3),
              trace := setup_events 0 @
                 (Get 0 url, Raise TimeoutException) # (Quit 0, Ok []) # setup_events 1 @
                 (Get 0 url, Raise InvalidSessionIdException) # (Quit 1, Ok []) # setup_events 2 @
                 [(Get 0 url, Raise InvalidSessionIdException)],
              opened := 3\<rparr>)"
proof -
  let ?E = "grid_env 3"
  let ?m = "driver_get ?E 0 url"
  let ?t1 = "setup_events 0 @ [(Get 0 url, Raise TimeoutException)]"
  let ?t2 = "?t1 @ (Quit 0, Ok []) # setup_events 1 @ [(Get 0 url, Raise InvalidSessionIdException)]"
  let ?t3 = "?t2 @ (Quit 1, Ok []) # setup_events 2 @ [(Get 0 url, Raise InvalidSessionIdException)]"
  let ?w2 = "\<lparr>est = ([0], 2), trace = ?t1 @ (Quit 0, Ok []) # setup_events 1, opened = 2\<rparr>"
  let ?w3 = "\<lparr>est = ([1, 0], 3), trace = ?t2 @ (Quit 1, Ok []) # setup_events 2, opened = 3\<rparr>"
  let ?w4 = "\<lparr>est = ([1, 0], 3), trace = ?t3, opened = 3\<rparr>"
  have g3: "?m ?w3 = (Inl InvalidSessionIdException, ?w4)"
    by (simp add: get_grid[where qs="[1, 0]" and n=3])
  have l2: "safe_get_loop ?E ?m (1 + 1) 2 ?w3 = (Inr False, ?w4)"
  proof -
    have "safe_get_loop ?E ?m (1 + 1) 2 ?w3 = safe_get_loop ?E ?m (1 + 1 + 1) 2 ?w4"
      by (rule loop_last[where m="?m", OF _ g3]) simp_all
    also have "\<dots> = (Inr False, ?w4)" by (rule loop_done) simp
    finally show ?thesis .
  qed
  have g2: "?m ?w2 = (Inl InvalidSessionIdException,
              \<lparr>est = ([0], 2), trace = ?t2, opened = 2\<rparr>)"
    by (simp add: get_grid[where qs="[0]" and n=2])
  have s2: "stop ?E 1 \<lparr>est = ([0], 2), trace = ?t2, opened = 2\<rparr> =
              (Inr (), \<lparr>est = ([1, 0], 2), trace = ?t2 @ [(Quit 1, Ok [])], opened = 2\<rparr>)"
    by (simp add: stop_grid[where qs="[0]" and n=2])
  have a2: "start ?E \<lparr>est = ([1, 0], 2), trace = ?t2 @ [(Quit 1, Ok [])], opened = 2\<rparr> = (Inr 2, ?w3)"
    by (simp add: start_grid[where qs="[1, 0]" and n=2])
  have l1: "safe_get_loop ?E ?m (0 + 1) 1 ?w2 = (Inr False, ?w4)"
  proof -
    have "safe_get_loop ?E ?m (0 + 1) 1 ?w2 =
        (case stop ?E 1 \<lparr>est = ([0], 2), trace = ?t2, opened = 2\<rparr> of
           (Inl e, w2) \<Rightarrow> (Inl e, w2)
         | (Inr u, w2) \<Rightarrow>
             (case start ?E w2 of
                (Inl e, w3) \<Rightarrow> (Inl e, w3)
              | (Inr d', w3) \<Rightarrow> safe_get_loop ?E ?m (0 + 1 + 1) d' w3))"
      by (rule loop_retry[where m="?m", OF _ g2]) simp_all
    also have "\<dots> = safe_get_loop ?E ?m (0 + 1 + 1) 2 ?w3"
      by (simp only: s2 a2 prod.case sum.case)
    also have "\<dots> = (Inr False, ?w4)" using l2 by simp
    finally show ?thesis .
  qed
  have g1: "?m started = (Inl TimeoutException, \<lparr>est = ([], 1), trace = ?t1, opened = 1\<rparr>)"
    by (simp add: get_grid[where qs="[]" and n=1] started_def)
  have s1: "stop ?E 0 \<lparr>est = ([], 1), trace = ?t1, opened = 1\<rparr> =
              (Inr (), \<lparr>est = ([0], 1), trace = ?t1 @ [(Quit 0, Ok [])], opened = 1\<rparr>)"
    by (simp add: stop_grid[where qs="[]" and n=1])
  have a1: "start ?E \<lparr>est = ([0], 1), trace = ?t1 @ [(Quit 0, Ok [])], opened = 1\<rparr> = (Inr 1, ?w2)"
    by (simp add: start_grid[where qs="[0]" and n=1])
  have l0: "safe_get_loop ?E ?m 0 0 started = (Inr False, ?w4)"
  proof -
    have "safe_get_loop ?E ?m 0 0 started =
        (case stop ?E 0 \<lparr>est = ([], 1), trace = ?t1, opened = 1\<rparr> of
           (Inl e, w2) \<Rightarrow> (Inl e, w2)
         | (Inr u, w2) \<Rightarrow>
             (case start ?E w2 of
                (Inl e, w3) \<Rightarrow> (Inl e, w3)
              | (Inr d', w3) \<Rightarrow> safe_get_loop ?E ?m (0 + 1) d' w3))"
      by (rule loop_retry[where m="?m", OF _ g1]) simp_all
    also have "\<dots> = safe_get_loop ?E ?m (0 + 1) 1 ?w2"
      by (simp only: s1 a1 prod.case sum.case)
    also note l1
    finally show ?thesis .
  qed
  show ?thesis unfolding safe_get_def l0 by (simp add: started_def)
qed

section \<open>The retry bound\<close>

text \<open>
  Claim C1 as stated fails. On a grid that has room for one session only, no page ever
  loads: session 0 is started, its navigation times out, the session is quit, the creation
  of its replacement is rejected, and that exception leaves \<open>_safe_get\<close>. One navigation
  was made, not three, and no boolean is returned.
\<close>

theorem replacement_rejected_ends_retries:
  "start (grid_env 1) \<lparr>est = ([], 0), trace = [], opened = 0\<rparr> = (Inr 0, started) \<and>
   fst (safe_get (grid_env 1) 0 (driver_get (grid_env 1) 0 ''http://a.example/'') started)
     = Inl WebDriverException \<and>
   nav_results (trace (snd (safe_get (grid_env 1) 0
       (driver_get (grid_env 1) 0 ''http://a.example/'') started)))
     = [Raise TimeoutException] \<and>
   kinds (trace (snd (safe_get (grid_env 1) 0
       (driver_get (grid_env 1) 0 ''http://a.example/'') started)))
     = [Create, Nav, Teardown, Create]"
  by (simp add: start_grid_first safe_get_grid_full del: One_nat_def)

text \<open>
  Claim C1, amended. On every endpoint \<open>_safe_get\<close> called with \<open>driver.get\<close> makes at
  least one and at most three navigations, and every navigation but the last one made has
  failed. When it returns a boolean, it returns true exactly when the last navigation
  succeeded, and that navigation is then the last command sent; it returns false only
  after three failed navigations; and between each two consecutive navigations exactly one
  \<open>quit\<close> and one session creation were sent, in this order, and none after the last.
  When an exception leaves it instead, every navigation made has failed, and the exception
  is that of the last navigation and no \<open>WebDriverException\<close>, or that of the \<open>quit\<close>
  sent after the first or second failure, or that of the session start after that \<open>quit\<close>.
  On an endpoint where session setup succeeds and failures are \<open>WebDriverException\<close>s it
  always returns a boolean.
\<close>

theorem safe_get_attempts:
  "(\<forall>res w'. safe_get env d (driver_get env d url) w = (res, w') \<longrightarrow>
      (\<exists>new. trace w' = trace w @ new \<and>
         (let rs = nav_results new; k = length rs in
            1 \<le> k \<and> k \<le> 3 \<and> (\<forall>x \<in> set (butlast rs). \<not> is_Ok x) \<and>
            (case res of
               Inr b \<Rightarrow>
                 (b \<longleftrightarrow> is_Ok (last rs)) \<and> (\<not> b \<longrightarrow> k = 3) \<and>
                 kinds new = attempts_pattern k \<and>
                 (b \<longrightarrow> last new = (Get d url, last rs))
             | Inl e \<Rightarrow>
                 \<not> is_Ok (last rs) \<and>
                 ((\<not> is_WebDriverException e \<and> kinds new = attempts_pattern k \<and>
                   last new = (Get d url, Raise e)) \<or>
                  (k < 3 \<and> \<not> is_WebDriverException e \<and>
                   kinds new = attempts_pattern k @ [Teardown]) \<or>
                  (k < 3 \<and> kinds new = attempts_pattern k @ [Teardown, Create])))))) \<and>
   (calm env \<longrightarrow> (\<exists>b w'. safe_get env d (driver_get env d url) w = (Inr b, w')))"
proof (intro conjI allI impI)
  fix res w'
  assume "safe_get env d (driver_get env d url) w = (res, w')"
  from safe_get_shape[OF this] obtain new where
    t: "trace w' = trace w @ new" and sh: "outcome_shape (Get d url) 3 res new" by blast
  have "let rs = nav_results new; k = length rs in
            1 \<le> k \<and> k \<le> 3 \<and> (\<forall>x \<in> set (butlast rs). \<not> is_Ok x) \<and>
            (case res of
               Inr b \<Rightarrow>
                 (b \<longleftrightarrow> is_Ok (last rs)) \<and> (\<not> b \<longrightarrow> k = 3) \<and>
                 kinds new = attempts_pattern k \<and>
                 (b \<longrightarrow> last new = (Get d url, last rs))
             | Inl e \<Rightarrow>
                 \<not> is_Ok (last rs) \<and>
                 ((\<not> is_WebDriverException e \<and> kinds new = attempts_pattern k \<and>
                   last new = (Get d url, Raise e)) \<or>
                  (k < 3 \<and> \<not> is_WebDriverException e \<and>
                   kinds new = attempts_pattern k @ [Teardown]) \<or>
                  (k < 3 \<and> kinds new = attempts_pattern k @ [Teardown, Create])))"
  proof (cases res)
    case (Inr b)
    with sh have "retry_shape (Get d url) 3 b new" by (simp add: outcome_shape_def)
    with Inr show ?thesis
      unfolding retry_shape_def Let_def by (cases "nav_results new") auto
  next
    case (Inl e)
    with sh have ab: "abort_shape (Get d url) 3 e new" by (simp add: outcome_shape_def)
    then have ne: "nav_results new \<noteq> []" by (simp add: abort_shape_def Let_def)
    from ab have all: "\<forall>x \<in> set (nav_results new). \<not> is_Ok x"
      by (simp add: abort_shape_def Let_def)
    from ne all have l: "\<not> is_Ok (last (nav_results new))" by simp
    from all have bl: "\<forall>x \<in> set (butlast (nav_results new)). \<not> is_Ok x"
      by (meson in_set_butlastD)
    from ne have k1: "1 \<le> length (nav_results new)" by (cases "nav_results new") auto
    from ab Inl l bl k1 show ?thesis
      unfolding abort_shape_def Let_def by simp
  qed
  with t show "\<exists>new. trace w' = trace w @ new \<and>
         (let rs = nav_results new; k = length rs in
            1 \<le> k \<and> k \<le> 3 \<and> (\<forall>x \<in> set (butlast rs). \<not> is_Ok x) \<and>
            (case res of
               Inr b \<Rightarrow>
                 (b \<longleftrightarrow> is_Ok (last rs)) \<and> (\<not> b \<longrightarrow> k = 3) \<and>
                 kinds new = attempts_pattern k \<and>
                 (b \<longrightarrow> last new = (Get d url, last rs))
             | Inl e \<Rightarrow>
                 \<not> is_Ok (last rs) \<and>
                 ((\<not> is_WebDriverException e \<and> kinds new = attempts_pattern k \<and>
                   last new = (Get d url, Raise e)) \<or>
                  (k < 3 \<and> \<not> is_WebDriverException e \<and>
                   kinds new = attempts_pattern k @ [Teardown]) \<or>
                  (k < 3 \<and> kinds new = attempts_pattern k @ [Teardown, Create]))))"
    by blast
next
  assume "calm env"
  from safe_get_loop_calm[OF this, of 0 d url d w]
  show "\<exists>b w'. safe_get env d (driver_get env d url) w = (Inr b, w')"
    unfolding safe_get_def by auto
qed

lemma calm_serving: "calm (fake_env (serving p))"
  by (rule calm_fake) auto

theorem safe_get_attempts_witness:
  "safe_get (grid_env 3) 0 (driver_get (grid_env 3) 0 ''http://a.example/'') started =
     (Inr False,
      started\<lparr>est := ([1, 0], 3),
              trace := setup_events 0 @
                 (Get 0 ''http://a.example/'', Raise TimeoutException) # (Quit 0, Ok []) #
                 setup_events 1 @
                 (Get 0 ''http://a.example/'', Raise InvalidSessionIdException) # (Quit 1, Ok []) #
                 setup_events 2 @
                 [(Get 0 ''http://a.example/'', Raise InvalidSessionIdException)],
              opened := 3\<rparr>) \<and>
   (\<exists>new. setup_events 0 @
                 (Get 0 ''http://a.example/'', Raise TimeoutException) # (Quit 0, Ok []) #
                 setup_events 1 @
                 (Get 0 ''http://a.example/'', Raise InvalidSessionIdException) # (Quit 1, Ok []) #
                 setup_events 2 @
                 [(Get 0 ''http://a.example/'', Raise InvalidSessionIdException)]
             = trace started @ new \<and>
      length (nav_results new) = 3 \<and>
      (\<forall>x \<in> set (butlast (nav_results new)). \<not> is_Ok x) \<and>
      \<not> is_Ok (last (nav_results new)) \<and>
      kinds new = attempts_pattern (length (nav_results new))) \<and>
   calm (fake_env (serving [])) \<and>
   (\<exists>b w'. safe_get (fake_env (serving [])) 0
              (driver_get (fake_env (serving [])) 0 ''http://a.example/'') w0 = (Inr b, w'))"
proof -
  note run = safe_get_grid[of "''http://a.example/''"]
  from safe_get_attempts[of "grid_env 3" 0 "''http://a.example/''" started, THEN conjunct1,
      rule_format, OF run]
  obtain new where
    n: "setup_events 0 @
                 (Get 0 ''http://a.example/'', Raise TimeoutException) # (Quit 0, Ok []) #
                 setup_events 1 @
                 (Get 0 ''http://a.example/'', Raise InvalidSessionIdException) # (Quit 1, Ok []) #
                 setup_events 2 @
                 [(Get 0 ''http://a.example/'', Raise InvalidSessionIdException)]
             = trace started @ new"
    and sh: "let rs = nav_results new; k = length rs in
            1 \<le> k \<and> k \<le> 3 \<and> (\<forall>x \<in> set (butlast rs). \<not> is_Ok x) \<and>
            (False \<longleftrightarrow> is_Ok (last rs)) \<and> (\<not> False \<longrightarrow> k = 3) \<and>
            kinds new = attempts_pattern k \<and>
            (False \<longrightarrow> last new = (Get 0 ''http://a.example/'', last rs))"
    by (auto simp: started_def)
  from sh have
    "length (nav_results new) = 3 \<and>
      (\<forall>x \<in> set (butlast (nav_results new)). \<not> is_Ok x) \<and>
      \<not> is_Ok (last (nav_results new)) \<and>
      kinds new = attempts_pattern (length (nav_results new))"
    by (simp add: Let_def)
  with n have ex: "\<exists>new. setup_events 0 @
                 (Get 0 ''http://a.example/'', Raise TimeoutException) # (Quit 0, Ok []) #
                 setup_events 1 @
                 (Get 0 ''http://a.example/'', Raise InvalidSessionIdException) # (Quit 1, Ok []) #
                 setup_events 2 @
                 [(Get 0 ''http://a.example/'', Raise InvalidSessionIdException)]
             = trace started @ new \<and>
      length (nav_results new) = 3 \<and>
      (\<forall>x \<in> set (butlast (nav_results new)). \<not> is_Ok x) \<and>
      \<not> is_Ok (last (nav_results new)) \<and>
      kinds new = attempts_pattern (length (nav_results new))"
    by blast
  from safe_get_attempts[of "fake_env (serving [])" 0 "''http://a.example/''" w0, THEN conjunct2]
    calm_serving[of "[]"]
  have tot: "\<exists>b w'. safe_get (fake_env (serving [])) 0
              (driver_get (fake_env (serving [])) 0 ''http://a.example/'') w0 = (Inr b, w')"
    by blast
  show ?thesis by (intro conjI run ex calm_serving tot)
qed

section \<open>Release of sessions\<close>

text \<open>
  Claim C2, at an endpoint where every navigation times out. \<open>scrape\<close> creates three
  sessions (handles 0, 1, 2) and sends \<open>quit\<close> three times: for 0, for 1, and for 0
  again. Session 2 is never released, and session 0 is released twice.
\<close>

theorem scrape_leaks_replacement_session:
  "fst (scrape (fake_env (failing TimeoutException)) bs url w0) = Inr (Some NOT_RESPONDING) \<and>
   opened (snd (scrape (fake_env (failing TimeoutException)) bs url w0)) = 3 \<and>
   quits (trace (snd (scrape (fake_env (failing TimeoutException)) bs url w0))) = [0, 1, 0]"
  by (simp add: scrape_def fetch_url_failing w0_def numeral_3_eq_3)

section \<open>Failures of the navigation\<close>

text \<open>
  Claim C3 as stated fails: on an endpoint that answers every navigation with the
  \<open>InvalidArgumentException\<close> of a malformed URL, \<open>_safe_get\<close> navigates three times,
  with a teardown and a new session after the first and the second failure, and returns
  false as for any other failure.
\<close>

theorem malformed_url_is_retried:
  "fst (safe_get (fake_env (failing InvalidArgumentException)) 0
          (driver_get (fake_env (failing InvalidArgumentException)) 0 ''not a url'') w0) = Inr False \<and>
   nav_results (trace (snd (safe_get (fake_env (failing InvalidArgumentException)) 0
          (driver_get (fake_env (failing InvalidArgumentException)) 0 ''not a url'') w0))) =
     [Raise InvalidArgumentException, Raise InvalidArgumentException,
      Raise InvalidArgumentException] \<and>
   kinds (trace (snd (safe_get (fake_env (failing InvalidArgumentException)) 0
          (driver_get (fake_env (failing InvalidArgumentException)) 0 ''not a url'') w0))) =
     [Nav, Teardown, Create, Nav, Teardown, Create, Nav]"
  by (simp add: safe_get_failing w0_def)

text \<open>
  Claim C3, amended. The retry engine knows no permanent failure. A navigation failure
  that is a \<open>WebDriverException\<close> (that of a malformed URL included) is followed by the
  teardown of the session; on an endpoint where session setup succeeds, the replacement
  and a second navigation follow, and the engine returns a boolean. A failure outside that
  hierarchy leaves the engine at once as that exception, with nothing sent after the
  failed navigation.
\<close>

theorem navigation_failure_handling:
  assumes "driver_get env d url w = (Inl ex, w1)"
  shows "(\<not> is_WebDriverException ex \<longrightarrow>
            safe_get env d (driver_get env d url) w = (Inl ex, w1)) \<and>
         (is_WebDriverException ex \<longrightarrow>
            (\<exists>x rest. trace (snd (safe_get env d (driver_get env d url) w))
                         = trace w1 @ (Quit d, x) # rest)) \<and>
         (calm env \<longrightarrow>
            (\<exists>b w' new. safe_get env d (driver_get env d url) w = (Inr b, w') \<and>
               trace w' = trace w @ new \<and> 2 \<le> length (nav_results new) \<and>
               take 4 (kinds new) = [Nav, Teardown, Create, Nav]))"
proof (intro conjI impI)
  assume "\<not> is_WebDriverException ex"
  with assms show "safe_get env d (driver_get env d url) w = (Inl ex, w1)"
    by (simp add: safe_get_def loop_raise)
next
  assume wde: "is_WebDriverException ex"
  let ?m = "driver_get env d url"
  have unf: "safe_get env d ?m w =
       (case stop env d w1 of
          (Inl e, w2) \<Rightarrow> (Inl e, w2)
        | (Inr u, w2) \<Rightarrow>
            (case start env w2 of
               (Inl e, w3) \<Rightarrow> (Inl e, w3)
             | (Inr d', w3) \<Rightarrow> safe_get_loop env ?m (0 + 1) d' w3))"
    unfolding safe_get_def
    by (rule loop_retry[where m="driver_get env d url" and w=w, OF _ assms wde]) simp_all
  obtain p w2 where st: "stop env d w1 = (p, w2)" by force
  then obtain x where t2: "trace w2 = trace w1 @ [(Quit d, x)]" by (auto dest!: stop_trace)
  show "\<exists>x rest. trace (snd (safe_get env d ?m w)) = trace w1 @ (Quit d, x) # rest"
  proof (cases p)
    case (Inl e)
    with unf st t2 show ?thesis by simp
  next
    case (Inr u)
    obtain a w3 where sa: "start env w2 = (a, w3)" by force
    then obtain sn where t3: "trace w3 = trace w2 @ sn" by (auto dest!: start_trace)
    show ?thesis
    proof (cases a)
      case (Inl e)
      with unf st Inr sa t2 t3 show ?thesis by simp
    next
      case ar: (Inr d')
      obtain res w' where l: "safe_get_loop env ?m (0 + 1) d' w3 = (res, w')" by force
      then obtain new where "trace w' = trace w3 @ new"
        using safe_get_loop_bound by blast
      with unf st Inr sa ar l t2 t3 show ?thesis by simp
    qed
  qed
next
  assume calm: "calm env"
  let ?m = "driver_get env d url"
  from assms obtain y where t1: "trace w1 = trace w @ [(Get d url, y)]"
    unfolding driver_get_def by (auto dest!: command_trace)
  from driver_get_calm[OF calm, of w d url] assms have wde: "is_WebDriverException ex"
    by auto
  have unf: "safe_get env d ?m w =
       (case stop env d w1 of
          (Inl e, w2) \<Rightarrow> (Inl e, w2)
        | (Inr u, w2) \<Rightarrow>
            (case start env w2 of
               (Inl e, w3) \<Rightarrow> (Inl e, w3)
             | (Inr d', w3) \<Rightarrow> safe_get_loop env ?m (0 + 1) d' w3))"
    unfolding safe_get_def
    by (rule loop_retry[where m="driver_get env d url" and w=w, OF _ assms wde]) simp_all
  obtain q w2 where s: "stop env d w1 = (Inr (), w2)" "trace w2 = trace w1 @ [(Quit d, q)]"
    using stop_calm[OF calm, of d w1] by blast
  obtain w3 sn where a: "start env w2 = (Inr (opened w2), w3)" "trace w3 = trace w2 @ sn"
    "kinds sn = [Create]" "nav_results sn = []"
    using start_calm[OF calm, of w2] by blast
  from safe_get_loop_calm[OF calm, of 1 d url "opened w2" w3] obtain b w' new where
    l: "safe_get_loop env ?m 1 (opened w2) w3 = (Inr b, w')" "trace w' = trace w3 @ new"
       "retry_shape (Get d url) 2 b new" by auto
  from l(3) have ne: "nav_results new \<noteq> []" by (simp add: retry_shape_def Let_def)
  then obtain n where n: "length (nav_results new) = Suc n" by (cases "nav_results new") auto
  from l(3) n have k: "kinds new = attempts_pattern (Suc n)" by (simp add: retry_shape_def Let_def)
  have hd: "take 1 (attempts_pattern (Suc n)) = [Nav]" by (cases n) simp_all
  have "safe_get env d ?m w = (Inr b, w')" using unf s a l by simp
  moreover have "trace w' = trace w @ ((Get d url, y) # (Quit d, q) # sn @ new)"
    using t1 s a l by simp
  moreover have "2 \<le> length (nav_results ((Get d url, y) # (Quit d, q) # sn @ new))"
    using a n by simp
  moreover have "take 4 (kinds ((Get d url, y) # (Quit d, q) # sn @ new)) = [Nav, Teardown, Create, Nav]"
    using a k hd by simp
  ultimately show "\<exists>b w' new. safe_get env d ?m w = (Inr b, w') \<and>
               trace w' = trace w @ new \<and> 2 \<le> length (nav_results new) \<and>
               take 4 (kinds new) = [Nav, Teardown, Create, Nav]"
    by blast
qed

lemma calm_failing: "is_WebDriverException e \<Longrightarrow> calm (fake_env (failing e))"
  by (rule calm_fake) auto

theorem navigation_failure_handling_witness:
  "driver_get (fake_env (failing InvalidArgumentException)) 0 ''not a url'' w0 =
     (Inl InvalidArgumentException,
      w0\<lparr>est := 1, trace := [(Get 0 ''not a url'', Raise InvalidArgumentException)]\<rparr>) \<and>
   is_WebDriverException InvalidArgumentException \<and>
   calm (fake_env (failing InvalidArgumentException)) \<and>
   (\<exists>b w' new.
      safe_get (fake_env (failing InvalidArgumentException)) 0
        (driver_get (fake_env (failing InvalidArgumentException)) 0 ''not a url'') w0 = (Inr b, w') \<and>
      trace w' = trace w0 @ new \<and> 2 \<le> length (nav_results new) \<and>
      take 4 (kinds new) = [Nav, Teardown, Create, Nav]) \<and>
   driver_get (fake_env (failing OtherException)) 0 ''not a url'' w0 =
     (Inl OtherException, w0\<lparr>est := 1, trace := [(Get 0 ''not a url'', Raise OtherException)]\<rparr>) \<and>
   \<not> is_WebDriverException OtherException \<and>
   safe_get (fake_env (failing OtherException)) 0
        (driver_get (fake_env (failing OtherException)) 0 ''not a url'') w0 =
     (Inl OtherException, w0\<lparr>est := 1, trace := [(Get 0 ''not a url'', Raise OtherException)]\<rparr>)"
proof -
  have g: "driver_get (fake_env (failing e)) 0 ''not a url'' w0 =
     (Inl e, w0\<lparr>est := 1, trace := [(Get 0 ''not a url'', Raise e)]\<rparr>)" for e
    by (simp add: get_fake w0_def)
  have c: "calm (fake_env (failing InvalidArgumentException))"
    by (rule calm_failing) simp
  from navigation_failure_handling[OF g[of InvalidArgumentException]]
       navigation_failure_handling[OF g[of OtherException]] g c
  show ?thesis by simp
qed

section \<open>Faults that leave the scraper\<close>

text \<open>
  Claim C7, at an endpoint that rejects the creation of a session: the exception raised
  by the first \<open>start\<close>, which \<open>_fetch_url\<close> calls before its \<open>try\<close>, leaves
  \<open>scrape\<close> as an exception; no value is returned.
\<close>

theorem scrape_propagates_session_creation_failure:
  "scrape (fake_env rejecting) bs url w0 =
     (Inl WebDriverException, w0\<lparr>trace := [(NewSession, Raise WebDriverException)]\<rparr>)"
  by (simp add: scrape_def fetch_url_def start_fake_rejected[where e=WebDriverException]
      rejecting_def w0_def)

section \<open>Stopping a session\<close>

text \<open>
  Claim C8 as stated fails: when \<open>quit\<close> fails with a timeout, which is not the failure of
  a session already gone, \<open>stop\<close> returns normally; nothing is propagated.
\<close>

theorem stop_swallows_timeout:
  "stop (fake_env (quit_failing TimeoutException)) 0 w0 =
     (Inr (), w0\<lparr>trace := [(Quit 0, Raise TimeoutException)]\<rparr>)"
  by (simp add: stop_fake quit_failing_def w0_def)

text \<open>
  Claim C8, amended. After any first call of \<open>stop\<close> on a session, a second call on the
  same session returns normally when \<open>quit\<close> answers or fails with any
  \<open>WebDriverException\<close>, that of a session already gone included; an exception outside
  that hierarchy is propagated as it is. The same holds of a first call.
\<close>

theorem stop_twice:
  assumes "stop env d w = (r1, w1)" and "execute env (Quit d) w1 = (x, w2)"
  shows "stop env d w1 =
           ((case x of
               Ok v \<Rightarrow> Inr ()
             | Raise e \<Rightarrow> if is_WebDriverException e then Inr () else Inl e), w2) \<and>
         (\<forall>x0 w0'. execute env (Quit d) w = (x0, w0') \<longrightarrow>
            (r1, w1) = ((case x0 of
                           Ok v \<Rightarrow> Inr ()
                         | Raise e \<Rightarrow> if is_WebDriverException e then Inr () else Inl e), w0'))"
  using assms by (auto simp: stop_def command_def split: resp.splits)

theorem stop_twice_witness:
  "stop (fake_env (quit_failing InvalidSessionIdException)) 0 w0 =
     (Inr (), w0\<lparr>trace := [(Quit 0, Raise InvalidSessionIdException)]\<rparr>) \<and>
   execute (fake_env (quit_failing InvalidSessionIdException)) (Quit 0)
     (w0\<lparr>trace := [(Quit 0, Raise InvalidSessionIdException)]\<rparr>) =
     (Raise InvalidSessionIdException,
      w0\<lparr>trace := [(Quit 0, Raise InvalidSessionIdException),
                    (Quit 0, Raise InvalidSessionIdException)]\<rparr>) \<and>
   stop (fake_env (quit_failing InvalidSessionIdException)) 0
     (w0\<lparr>trace := [(Quit 0, Raise InvalidSessionIdException)]\<rparr>) =
     (Inr (), w0\<lparr>trace := [(Quit 0, Raise InvalidSessionIdException),
                            (Quit 0, Raise InvalidSessionIdException)]\<rparr>)"
proof -
  let ?E = "fake_env (quit_failing InvalidSessionIdException)"
  let ?w1 = "w0\<lparr>trace := [(Quit 0, Raise InvalidSessionIdException)]\<rparr>"
  let ?w2 = "w0\<lparr>trace := [(Quit 0, Raise InvalidSessionIdException),
                            (Quit 0, Raise InvalidSessionIdException)]\<rparr>"
  have a: "stop ?E 0 w0 = (Inr (), ?w1)"
    by (simp add: stop_fake quit_failing_def w0_def)
  have b: "execute ?E (Quit 0) ?w1 = (Raise InvalidSessionIdException, ?w2)"
    by (simp add: execute_fake quit_failing_def w0_def)
  from stop_twice[OF a b] a b show ?thesis by simp
qed

section \<open>Noise removal is one pass\<close>

lemma shallow_is_tag [simp]: "shallow (is_tag n)"
  by (simp add: shallow_def)

lemma shallow_has_attr [simp]: "shallow (has_attr attr p)"
  by (simp add: shallow_def)

lemma shallow_disj: "shallow P \<Longrightarrow> shallow Q \<Longrightarrow> shallow (\<lambda>c. P c \<or> Q c)"
  by (simp add: shallow_def) blast

lemma shallow_decompose: "shallow P \<Longrightarrow> P (decompose_all Q c) = P c"
  by (cases c) (auto simp: shallow_def)

lemma decompose_all_twice:
  "shallow P \<Longrightarrow> decompose_all P (decompose_all Q n) = decompose_all (\<lambda>c. Q c \<or> P c) n"
proof (induction n)
  case (Text s)
  show ?case by simp
next
  case (Element t a cs)
  have "filter (\<lambda>c. \<not> P c) (map (decompose_all Q) xs)
          = map (decompose_all Q) (filter (\<lambda>c. \<not> P c) xs)" for xs
    using Element.prems by (induction xs) (simp_all add: shallow_decompose)
  with Element show ?case
    by (auto simp: filter_map o_def shallow_decompose conj_commute)
qed

lemma decompose_all_none: "decompose_all (\<lambda>c. False) n = n"
  by (induction n) (simp_all add: map_idI)

lemma fold_decompose_all:
  "(\<And>x. shallow (f x)) \<Longrightarrow>
     fold (\<lambda>x. decompose_all (f x)) xs (decompose_all Q n)
       = decompose_all (\<lambda>c. Q c \<or> list_ex (\<lambda>x. f x c) xs) n"
proof (induction xs arbitrary: Q)
  case Nil
  show ?case by simp
next
  case (Cons x xs)
  have "fold (\<lambda>x. decompose_all (f x)) (x # xs) (decompose_all Q n)
          = fold (\<lambda>x. decompose_all (f x)) xs (decompose_all (\<lambda>c. Q c \<or> f x c) n)"
    by (simp add: decompose_all_twice Cons.prems)
  also have "\<dots> = decompose_all (\<lambda>c. (Q c \<or> f x c) \<or> list_ex (\<lambda>x. f x c) xs) n"
    by (rule Cons.IH) (rule Cons.prems)
  finally show ?case by (simp add: disj_assoc)
qed

lemma remove_unwanted_elements_single_pass:
  "remove_unwanted_elements n = decompose_all unwanted n"
proof -
  let ?g = "\<lambda>p c. has_attr ''class'' p c \<or> has_attr ''id'' p c"
  have inner: "fold (\<lambda>attr. decompose_all (has_attr attr p)) [''class'', ''id''] s
                 = decompose_all (?g p) (decompose_all (\<lambda>c. False) s)" for p s
    by (simp add: decompose_all_twice decompose_all_none)
  have g: "shallow (?g p)" for p by (simp add: shallow_disj)
  have tags: "fold (\<lambda>tag. decompose_all (is_tag tag)) direct_tags_to_remove n
                = decompose_all (\<lambda>c. list_ex (\<lambda>tag. is_tag tag c) direct_tags_to_remove) n"
    using fold_decompose_all[of is_tag direct_tags_to_remove "\<lambda>c. False" n]
    by (simp add: decompose_all_none)
  have "remove_unwanted_elements n
          = fold (\<lambda>p. decompose_all (?g p)) unwanted_patterns
              (decompose_all (\<lambda>c. list_ex (\<lambda>tag. is_tag tag c) direct_tags_to_remove) n)"
    unfolding remove_unwanted_elements_def inner tags by (simp add: decompose_all_none)
  also have "\<dots> = decompose_all unwanted n"
    using fold_decompose_all[of ?g unwanted_patterns
        "\<lambda>c. list_ex (\<lambda>tag. is_tag tag c) direct_tags_to_remove" n] g
    by (simp add: unwanted_def[abs_def])
  finally show ?thesis .
qed

lemma shallow_unwanted: "shallow unwanted"
  by (simp add: shallow_def unwanted_def)

lemma descendants_decompose_all:
  "shallow P \<Longrightarrow> e \<in> set (descendants (decompose_all P n)) \<Longrightarrow> \<not> P e"
proof (induction n)
  case (Text s)
  then show ?case by simp
next
  case (Element t a cs)
  from Element.prems(2) obtain c where c: "c \<in> set cs" "\<not> P c"
    and e: "e = decompose_all P c \<or> e \<in> set (descendants (decompose_all P c))"
    by auto
  from e show ?case
  proof
    assume "e = decompose_all P c"
    with c Element.prems(1) show ?thesis by (simp add: shallow_decompose)
  next
    assume "e \<in> set (descendants (decompose_all P c))"
    with Element.IH[OF c(1) Element.prems(1)] show ?thesis .
  qed
qed

lemma unwanted_Element:
  "unwanted (Element t a cs) \<longleftrightarrow>
     t \<in> set direct_tags_to_remove \<or>
     (\<exists>p \<in> set unwanted_patterns.
        (\<exists>v. map_of a ''class'' = Some v \<and> value_matches p v) \<or>
        (\<exists>v. map_of a ''id'' = Some v \<and> value_matches p v))"
  by (auto simp: unwanted_def list_ex_iff split: option.splits)

lemma unwanted_Text [simp]: "\<not> unwanted (Text s)"
  by (simp add: unwanted_def list_ex_iff)

lemma cookie_banner_unwanted: "has_attr ''class'' ''cookie-banner'' e \<Longrightarrow> unwanted e"
  by (auto simp: unwanted_def list_ex_iff unwanted_patterns_def)

lemma cookie_banner_extra_not_matched:
  "\<not> list_ex (\<lambda>pattern. has_attr ''class'' pattern (Element t [(''class'', Multi [''cookie-banner-extra''])] cs)
       \<or> has_attr ''id'' pattern (Element t [(''class'', Multi [''cookie-banner-extra''])] cs))
     unwanted_patterns"
  by (simp add: unwanted_patterns_def)

section \<open>Exact matching in the noise removal\<close>

text \<open>
  Claim C6. Below the element it is called on, which is the body, the noise removal drops
  the children that are unwanted, at every level, and keeps every other child with its own
  content cleaned in the same way. An element is unwanted when its tag is one of the
  direct tags or when a pattern of the denylist is equal to one of its \<open>class\<close> tokens or to
  its \<open>id\<close>: equality of strings, not containment. So no element with the class
  \<open>cookie-banner\<close> is left below the body, and the class \<open>cookie-banner-extra\<close> makes no
  element unwanted.
\<close>

theorem noise_removal_exact_match:
  "remove_unwanted_elements (Element t a cs) =
     Element t a (map remove_unwanted_elements (filter (\<lambda>c. \<not> unwanted c) cs)) \<and>
   (unwanted (Element t' a' cs') \<longleftrightarrow>
      t' \<in> set direct_tags_to_remove \<or>
      (\<exists>p \<in> set unwanted_patterns.
         (\<exists>v. map_of a' ''class'' = Some v \<and> value_matches p v) \<or>
         (\<exists>v. map_of a' ''id'' = Some v \<and> value_matches p v))) \<and>
   (\<forall>e \<in> set (descendants (remove_unwanted_elements n)).
      \<not> has_attr ''class'' ''cookie-banner'' e) \<and>
   (t' \<notin> set direct_tags_to_remove \<longrightarrow>
      \<not> unwanted (Element t' [(''class'', Multi [''cookie-banner-extra''])] cs'))"
proof (intro conjI ballI impI)
  show "remove_unwanted_elements (Element t a cs) =
     Element t a (map remove_unwanted_elements (filter (\<lambda>c. \<not> unwanted c) cs))"
    by (simp add: remove_unwanted_elements_single_pass)
next
  show "unwanted (Element t' a' cs') \<longleftrightarrow>
      t' \<in> set direct_tags_to_remove \<or>
      (\<exists>p \<in> set unwanted_patterns.
         (\<exists>v. map_of a' ''class'' = Some v \<and> value_matches p v) \<or>
         (\<exists>v. map_of a' ''id'' = Some v \<and> value_matches p v))"
    by (rule unwanted_Element)
next
  fix e
  assume "e \<in> set (descendants (remove_unwanted_elements n))"
  then have "\<not> unwanted e"
    using descendants_decompose_all[OF shallow_unwanted]
    by (simp add: remove_unwanted_elements_single_pass)
  then show "\<not> has_attr ''class'' ''cookie-banner'' e"
    using cookie_banner_unwanted by blast
next
  assume "t' \<notin> set direct_tags_to_remove"
  then show "\<not> unwanted (Element t' [(''class'', Multi [''cookie-banner-extra''])] cs')"
    using cookie_banner_extra_not_matched[of t' cs']
    by (simp add: unwanted_def list_ex_iff)
qed

theorem noise_removal_exact_match_witness:
  "''div'' \<notin> set direct_tags_to_remove \<and>
   unwanted (Element ''div'' [(''class'', Multi [''cookie-banner''])] [Text ''x'']) \<and>
   \<not> unwanted (Element ''div'' [(''class'', Multi [''cookie-banner-extra''])] [Text ''y'']) \<and>
   remove_unwanted_elements
     (Element ''body'' []
        [Element ''div'' [(''class'', Multi [''cookie-banner''])] [Text ''x''],
         Element ''div'' [(''class'', Multi [''cookie-banner-extra''])] [Text ''y'']]) =
     Element ''body'' [] [Element ''div'' [(''class'', Multi [''cookie-banner-extra''])] [Text ''y'']]"
proof -
  have d: "''div'' \<notin> set direct_tags_to_remove"
    by (simp add: direct_tags_to_remove_def)
  have u: "unwanted (Element ''div'' [(''class'', Multi [''cookie-banner''])] [Text ''x''])"
    by (rule cookie_banner_unwanted) simp
  note inst = noise_removal_exact_match[of _ _ _ "''div''" _ "[Text ''y'']"]
  from inst d have k: "\<not> unwanted (Element ''div'' [(''class'', Multi [''cookie-banner-extra''])] [Text ''y''])"
    by blast
  have inner: "remove_unwanted_elements (Element ''div'' [(''class'', Multi [''cookie-banner-extra''])] [Text ''y''])
      = Element ''div'' [(''class'', Multi [''cookie-banner-extra''])] [Text ''y'']"
    by (simp add: remove_unwanted_elements_single_pass)
  from inst[of "''body''" "[]"
      "[Element ''div'' [(''class'', Multi [''cookie-banner''])] [Text ''x''],
        Element ''div'' [(''class'', Multi [''cookie-banner-extra''])] [Text ''y'']]"]
    d u k inner
  show ?thesis by simp
qed

section \<open>Text of a tree\<close>

lemma strip_Nil [simp]: "strip [] = []"
  by (simp add: strip_def)

lemma strip_id:
  assumes "s \<noteq> []" "\<not> isspace (hd s)" "\<not> isspace (last s)"
  shows "strip s = s"
proof -
  from assms(1,2) have a: "dropWhile isspace s = s" by (cases s) simp_all
  from assms(1,3) have b: "dropWhile isspace (rev s) = rev s"
    by (cases "rev s") (simp_all add: last_rev[symmetric] del: last_rev)
  show ?thesis by (simp add: strip_def a b)
qed








section \<open>Extraction on concrete documents\<close>

lemma parses_as_same [simp]: "parses_as src doc src = doc"
  by (simp add: parses_as_def)

lemma soup_body_document [simp]: "soup_body (document attrs cs) = Some (Element ''body'' attrs cs)"
  by (simp add: soup_body_def select_def find_all_def document_def)

lemma not_unwanted_plain: "t \<notin> set direct_tags_to_remove \<Longrightarrow> \<not> unwanted (Element t [] cs)"
  by (simp add: unwanted_Element)

lemma plain_tags [simp]:
  "''p'' \<notin> set direct_tags_to_remove" "''span'' \<notin> set direct_tags_to_remove"
  by (simp_all add: direct_tags_to_remove_def)

lemma letter_A [simp]: "\<not> isspace CHR ''A''"
  by (simp add: isspace_def)

lemma extract_para:
  assumes "t \<noteq> []" "\<not> isspace (hd t)" "\<not> isspace (last t)"
  shows "extract_paragraphs (parses_as (para_src t) (para_doc t)) (Some (para_src t)) = Some t"
proof -
  have r: "remove_unwanted_elements (Element ''body'' [] [Element ''p'' [] [Text t]])
             = Element ''body'' [] [Element ''p'' [] [Text t]]"
    by (simp add: remove_unwanted_elements_single_pass not_unwanted_plain)
  have s: "strip t = t" by (rule strip_id) (rule assms)+
  show ?thesis
    by (simp add: extract_paragraphs_def para_src_def para_doc_def r s Let_def select_def
        find_all_def extract_text_from_paragraphs_def)
qed


lemma extract_empty: "extract_paragraphs (parses_as empty_src empty_doc) (Some empty_src) = Some []"
proof -
  have r: "remove_unwanted_elements (Element ''body'' [] []) = Element ''body'' [] []"
    by (simp add: remove_unwanted_elements_single_pass)
  show ?thesis
    by (simp add: extract_paragraphs_def empty_src_def empty_doc_def r Let_def select_def
        find_all_def extract_text_from_paragraphs_def)
qed


section \<open>The fallback of the extraction\<close>

lemma nav_unwanted: "unwanted (Element ''nav'' a cs)"
  by (simp add: unwanted_Element direct_tags_to_remove_def)

lemma remove_nav_body:
  "remove_unwanted_elements
     (Element ''body'' [] [Element ''nav'' [] [Text ''skip''], Element ''p'' [] [Text ''short'']])
     = Element ''body'' [] [Element ''p'' [] [Text ''short'']]"
  by (simp add: remove_unwanted_elements_single_pass nav_unwanted not_unwanted_plain)

lemma strip_short: "strip ''short'' = ''short''"
  by (rule strip_id) (simp_all add: isspace_def)

lemma primary_text_nav_body:
  "primary_text
     (Element ''body'' [] [Element ''nav'' [] [Text ''skip''], Element ''p'' [] [Text ''short'']])
     = ''short''"
  by (simp add: primary_text_def remove_nav_body Let_def select_def find_all_def
      extract_text_from_paragraphs_def strip_short)

lemma extract_nav:
  "extract_paragraphs (parses_as nav_src nav_doc) (Some nav_src) = Some ''short''"
proof -
  have n: "nav_src \<noteq> []" by (simp add: nav_src_def)
  show ?thesis
    using n
    by (simp add: extract_paragraphs_def nav_doc_def remove_nav_body Let_def select_def
        find_all_def extract_text_from_paragraphs_def strip_short)
qed

text \<open>
  Claim C5 as stated fails. For a page with a navigation bar before its one short
  paragraph the primary text is shorter than 1000 characters, so the fallback is taken;
  the trimmed text of the entire body is \<open>skipshort\<close>, and the extraction returns
  \<open>short\<close>: the navigation bar was removed from the body before its text was read.
\<close>

theorem fallback_is_not_entire_body:
  "soup_body (parses_as nav_src nav_doc nav_src) =
     Some (Element ''body'' [] [Element ''nav'' [] [Text ''skip''], Element ''p'' [] [Text ''short'']]) \<and>
   length (primary_text
     (Element ''body'' [] [Element ''nav'' [] [Text ''skip''], Element ''p'' [] [Text ''short'']])) < 1000 \<and>
   strip (get_text
     (Element ''body'' [] [Element ''nav'' [] [Text ''skip''], Element ''p'' [] [Text ''short'']]))
     = ''skipshort'' \<and>
   extract_paragraphs (parses_as nav_src nav_doc) (Some nav_src) = Some ''short''"
proof -
  have s: "strip ''skipshort'' = ''skipshort''"
    by (rule strip_id) (simp_all add: isspace_def)
  show ?thesis
    by (simp add: nav_doc_def primary_text_nav_body extract_nav[unfolded nav_doc_def] s)
qed

text \<open>
  Claim C5, amended. For a document with a body, when the text joined from the \<open>p\<close> and
  \<open>span\<close> elements left after the noise removal, trimmed, has fewer than 1000
  characters, the extraction returns instead the trimmed text of the body as the noise
  removal has left it: the body without its unwanted elements and all that is under them.
\<close>

theorem fallback_law:
  assumes "src \<noteq> []" and "soup_body (bs src) = Some body0"
    and "length (primary_text body0) < 1000"
  shows "extract_paragraphs bs (Some src) = Some (strip (get_text (remove_unwanted_elements body0))) \<and>
         remove_unwanted_elements body0 = decompose_all unwanted body0"
  using assms
  by (simp add: extract_paragraphs_def primary_text_def Let_def
      remove_unwanted_elements_single_pass)

theorem fallback_law_witness:
  "nav_src \<noteq> [] \<and>
   soup_body (parses_as nav_src nav_doc nav_src) =
     Some (Element ''body'' [] [Element ''nav'' [] [Text ''skip''], Element ''p'' [] [Text ''short'']]) \<and>
   length (primary_text
     (Element ''body'' [] [Element ''nav'' [] [Text ''skip''], Element ''p'' [] [Text ''short'']])) < 1000 \<and>
   extract_paragraphs (parses_as nav_src nav_doc) (Some nav_src) =
     Some (strip (get_text (remove_unwanted_elements
       (Element ''body'' [] [Element ''nav'' [] [Text ''skip''], Element ''p'' [] [Text ''short'']])))) \<and>
   remove_unwanted_elements
       (Element ''body'' [] [Element ''nav'' [] [Text ''skip''], Element ''p'' [] [Text ''short'']])
     = Element ''body'' [] [Element ''p'' [] [Text ''short'']] \<and>
   strip (get_text (Element ''body'' [] [Element ''p'' [] [Text ''short'']])) = ''short''"
proof -
  let ?b = "Element ''body'' [] [Element ''nav'' [] [Text ''skip''], Element ''p'' [] [Text ''short'']]"
  have a: "nav_src \<noteq> []" by (simp add: nav_src_def)
  have b: "soup_body (parses_as nav_src nav_doc nav_src) = Some ?b"
    by (simp add: nav_doc_def)
  have c: "length (primary_text ?b) < 1000"
    by (simp add: primary_text_nav_body)
  have r: "strip (get_text (Element ''body'' [] [Element ''p'' [] [Text ''short'']])) = ''short''"
    by (simp add: strip_short)
  note f = fallback_law[of nav_src "parses_as nav_src nav_doc", OF a b c, THEN conjunct1]
  show ?thesis by (intro conjI a b c f remove_nav_body r)
qed

section \<open>The quality gate of the orchestrator\<close>

text \<open>
  Claim C4 as stated fails: a page with an empty body is fetched, the extraction returns
  the empty text, which is shorter than 1000 characters, and \<open>scrape\<close> returns \<open>None\<close>,
  not the message for insufficient content.
\<close>

theorem empty_text_is_no_content:
  "fst (fetch_url (fake_env (serving empty_src)) ''http://a.example/'' w0) = Inr (Some empty_src) \<and>
   extract_paragraphs (parses_as empty_src empty_doc) (Some empty_src) = Some [] \<and>
   fst (scrape (fake_env (serving empty_src)) (parses_as empty_src empty_doc)
          ''http://a.example/'' w0) = Inr None"
  by (simp add: scrape_def fetch_url_serving extract_empty)
    (simp add: empty_src_def NOT_RESPONDING_def)

text \<open>
  Claim C4, amended. When the fetch gave a page source other than the not-responding
  message and the extraction gave a text, \<open>scrape\<close> returns \<open>None\<close> for the empty text,
  the message for insufficient content for a text of 1 to 999 characters, and the text
  itself for a text of 1000 characters or more.
\<close>

theorem quality_gate:
  assumes "fetch_url env url w = (Inr page_source, w')"
    and "page_source \<noteq> Some NOT_RESPONDING"
    and "extract_paragraphs bs page_source = Some text"
  shows "scrape env bs url w =
           (Inr (if text = [] then None
                 else if length text < 1000 then Some NOT_RELEVANT
                 else Some text), w')"
  using assms by (simp add: scrape_def)

theorem quality_gate_witness:
  "fst (scrape (fake_env (serving (para_src ''short''))) (parses_as (para_src ''short'') (para_doc ''short''))
          ''http://a.example/'' w0) = Inr (Some NOT_RELEVANT) \<and>
   fst (scrape (fake_env (serving (para_src (replicate 999 CHR ''A''))))
          (parses_as (para_src (replicate 999 CHR ''A'')) (para_doc (replicate 999 CHR ''A'')))
          ''http://a.example/'' w0) = Inr (Some NOT_RELEVANT) \<and>
   fst (scrape (fake_env (serving (para_src (replicate 1000 CHR ''A''))))
          (parses_as (para_src (replicate 1000 CHR ''A'')) (para_doc (replicate 1000 CHR ''A'')))
          ''http://a.example/'' w0) = Inr (Some (replicate 1000 CHR ''A''))"
proof -
  have s: "\<not> isspace CHR ''s''" "\<not> isspace CHR ''t''" by (simp_all add: isspace_def)
  have ne: "Some (para_src t) \<noteq> Some NOT_RESPONDING" for t
    by (simp add: para_src_def NOT_RESPONDING_def)
  obtain w1 where f1: "fetch_url (fake_env (serving (para_src ''short''))) ''http://a.example/'' w0
      = (Inr (Some (para_src ''short'')), w1)"
    by (simp add: fetch_url_serving)
  obtain w2 where f2: "fetch_url (fake_env (serving (para_src (replicate 999 CHR ''A''))))
      ''http://a.example/'' w0 = (Inr (Some (para_src (replicate 999 CHR ''A''))), w2)"
    by (simp add: fetch_url_serving)
  obtain w3 where f3: "fetch_url (fake_env (serving (para_src (replicate 1000 CHR ''A''))))
      ''http://a.example/'' w0 = (Inr (Some (para_src (replicate 1000 CHR ''A''))), w3)"
    by (simp add: fetch_url_serving)
  have e1: "extract_paragraphs (parses_as (para_src ''short'') (para_doc ''short''))
              (Some (para_src ''short'')) = Some ''short''"
    using extract_para[of "''short''"] s by simp
  have e2: "extract_paragraphs (parses_as (para_src (replicate 999 CHR ''A'')) (para_doc (replicate 999 CHR ''A'')))
              (Some (para_src (replicate 999 CHR ''A''))) = Some (replicate 999 CHR ''A'')"
    by (rule extract_para) simp_all
  have e3: "extract_paragraphs (parses_as (para_src (replicate 1000 CHR ''A'')) (para_doc (replicate 1000 CHR ''A'')))
              (Some (para_src (replicate 1000 CHR ''A''))) = Some (replicate 1000 CHR ''A'')"
    by (rule extract_para) simp_all
  from quality_gate[OF f1 ne e1] quality_gate[OF f2 ne e2] quality_gate[OF f3 ne e3]
  show ?thesis by simp
qed

section \<open>The cleaned text and the raw HTML\<close>




section \<open>Messages in the place of outcomes\<close>


end
